theory Spec2Isabelle
  imports Main "HOL-Library.Multiset"
begin

section \<open>JavaScript helpers shared by the models\<close>

text \<open>
  \<open>String.prototype.split\<close> with a one-character separator: the result is never empty,
  \<open>"".split(".")\<close> is \<open>[""]\<close> and \<open>"a.".split(".")\<close> is \<open>["a", ""]\<close>.
\<close>

fun js_split :: "char \<Rightarrow> string \<Rightarrow> string list" where
  "js_split c [] = [[]]"
| "js_split c (x # xs) =
     (if x = c then [] # js_split c xs
      else (case js_split c xs of
              [] \<Rightarrow> [[x]]
            | y # ys \<Rightarrow> (x # y) # ys))"

text \<open>Reading index 0 of a JavaScript array: \<open>undefined\<close> (here \<open>None\<close>) when it is empty.\<close>

definition js_first :: "'a list \<Rightarrow> 'a option" where
  "js_first xs = (case xs of [] \<Rightarrow> None | x # _ \<Rightarrow> Some x)"

text \<open>Truthiness of an optional string: \<open>undefined\<close> and \<open>""\<close> are falsy.\<close>

definition js_truthy :: "string option \<Rightarrow> bool" where
  "js_truthy s = (case s of None \<Rightarrow> False | Some v \<Rightarrow> v \<noteq> [])"

text \<open>\<open>a || b\<close> on two strings: the first operand unless it is the empty string.\<close>

definition js_or :: "string \<Rightarrow> string \<Rightarrow> string" where
  "js_or a b = (if a \<noteq> [] then a else b)"

section \<open>commands/codegen/generate.ts: target inference of \<open>Generate.run\<close>\<close>

datatype cli_error = CliError string

text \<open>
  The first block of \<open>Generate.run\<close>.  \<open>this.error\<close> throws, so each call of it is an
  \<open>Inl\<close>.  The \<open>switch\<close> compares the last dot-separated segment of the output path
  with each \<open>case\<close> expression in order, by strict equality; the third and fourth case
  expressions are the values of \<open>"ts" || "tsx"\<close> and \<open>"js" || "jsx"\<close>.
  With neither a target flag nor an output argument, \<open>inferredTarget\<close> stays \<open>""\<close>.
\<close>

definition supportedTargets :: "string list" where
  "supportedTargets =
     [''json'', ''swift'', ''typescript'', ''flow'', ''scala'', ''typescript-legacy'', ''flow-legacy'']"

definition outputExtension :: "string \<Rightarrow> string option" where
  "outputExtension output = js_first (rev (js_split CHR ''.'' output))"

definition inferFromExtension :: "string option \<Rightarrow> cli_error + string" where
  "inferFromExtension ext =
     (if ext = Some ''json'' then Inr ''json''
      else if ext = Some ''swift'' then Inr ''swift''
      else if ext = Some (js_or ''ts'' ''tsx'') then Inr ''typescript''
      else if ext = Some (js_or ''js'' ''jsx'') then Inr ''flow''
      else if ext = Some ''scala'' then Inr ''scala''
      else Inl (CliError ''Could not infer target from output file type, please use --target''))"

definition inferTarget :: "string option \<Rightarrow> string option \<Rightarrow> cli_error + string" where
  "inferTarget flags_target args_output =
     (if js_truthy flags_target then
        (if the flags_target \<in> set supportedTargets then Inr (the flags_target)
         else Inl (CliError (''Unsupported target: '' @ the flags_target)))
      else if js_truthy args_output then
        inferFromExtension (outputExtension (the args_output))
      else Inr [])"

text \<open>
  The checks of \<open>Generate.run\<close> that follow the inference, up to the task list.
  \<open>path.isAbsolute\<close> and \<open>path.sep\<close> belong to the platform and are parameters.
\<close>

definition runChecks ::
  "(string \<Rightarrow> bool) \<Rightarrow> char \<Rightarrow> string option \<Rightarrow> bool \<Rightarrow> string option \<Rightarrow> cli_error + string" where
  "runChecks path_isAbsolute path_sep flags_target flags_outputFlat args_output =
     (case inferTarget flags_target args_output of
        Inl e \<Rightarrow> Inl e
      | Inr inferredTarget \<Rightarrow>
          if \<not> js_truthy args_output \<and> inferredTarget \<noteq> ''typescript'' \<and> inferredTarget \<noteq> ''flow''
          then Inl (CliError ''The output path must be specified in the arguments for Swift and Scala'')
          else if \<not> flags_outputFlat
                  \<and> (inferredTarget = ''typescript'' \<or> inferredTarget = ''flow'')
                  \<and> (js_truthy args_output
                       \<and> (path_isAbsolute (the args_output)
                            \<or> length (js_split path_sep (the args_output)) > 1))
          then Inl (CliError (''For TypeScript and Flow generators, \"output\" must be empty or a ''
                 @ ''single directory name, unless the \"outputFlat\" flag is set.''))
          else Inr inferredTarget)"


section \<open>The compiler's intermediate representation\<close>

text \<open>
  Modelled from the spec: the IR types (\<open>CompilerContext\<close>, \<open>Operation\<close>, \<open>Fragment\<close>,
  \<open>SelectionSet\<close>, \<open>Field\<close>, \<open>FragmentSpread\<close>, \<open>Variant\<close>) are declared in
  \<open>arc-apollo-codegen-core/lib/compiler\<close>, which is not among the sources.  Their shape
  follows the data model of the specification (section 3) and the properties that
  \<open>codeGeneration.ts\<close> and \<open>generate.ts\<close> read from them.  A schema type is the tagged
  union of section 3, each named type carrying its name; \<open>typeToString\<close> is the
  \<open>toString()\<close> of a schema type, which prints a named type as its name.
\<close>

datatype GraphQLType =
    GraphQLScalarType string
  | GraphQLEnumType string
  | GraphQLInputObjectType string
  | GraphQLObjectType string
  | GraphQLInterfaceType string
  | GraphQLUnionType string
  | GraphQLList GraphQLType
  | GraphQLNonNull GraphQLType

fun typeToString :: "GraphQLType \<Rightarrow> string" where
  "typeToString (GraphQLScalarType n) = n"
| "typeToString (GraphQLEnumType n) = n"
| "typeToString (GraphQLInputObjectType n) = n"
| "typeToString (GraphQLObjectType n) = n"
| "typeToString (GraphQLInterfaceType n) = n"
| "typeToString (GraphQLUnionType n) = n"
| "typeToString (GraphQLList t) = ''['' @ typeToString t @ '']''"
| "typeToString (GraphQLNonNull t) = typeToString t @ ''!''"

datatype SelectionSet =
    SelectionSet (possibleTypes: "GraphQLType list") (selections: "Selection list")
and Selection =
    FieldSelection Field
  | TypeCondition GraphQLType SelectionSet
  | FragmentSpread string SelectionSet
and Field =
    Field (fieldName: string) (fieldAlias: "string option") (fieldType: GraphQLType)
      (fieldDescription: "string option") (fieldSelectionSet: "SelectionSet option")

datatype Variant =
    Variant (variantPossibleTypes: "GraphQLType list") (variantSelections: "Selection list")

text \<open>
  The compiler options that the command line passes to \<open>generate\<close>
  (\<open>GenerationOptions\<close>).  A flag that may be \<open>undefined\<close> is an \<open>option\<close>.
\<close>

record CompilerOptions =
  passthroughCustomScalars :: bool
  customScalarsPrefix :: string
  addTypename :: "bool option"
  namespace :: "string option"
  operationIdsPath :: "string option"
  generateOperationIds :: bool
  mergeInFieldsFromFragmentSpreads :: "bool option"
  useFlowExactObjects :: "bool option"
  useFlowReadOnlyTypes :: "bool option"
  supportArcBlockSDK :: "bool option"

record Variable =
  variableName :: string
  variableType :: GraphQLType

record Operation =
  operationType :: string
  operationName :: string
  variables :: "Variable list"
  opSelectionSet :: SelectionSet
  opFilePath :: string
  operationId :: "string option"
  opSource :: string

record Fragment =
  fragmentName :: string
  fragSelectionSet :: SelectionSet
  fragFilePath :: string

record CompilerContext =
  operations :: "(string \<times> Operation) list"
  fragments :: "(string \<times> Fragment) list"
  typesUsed :: "GraphQLType list"
  options :: CompilerOptions

text \<open>
  \<open>Object.values\<close> lists the integer-like keys of an object first, in ascending order,
  and then its other string keys in insertion order.  The keys of \<open>context.operations\<close>
  and \<open>context.fragments\<close> are names of operations and fragments; a GraphQL name starts
  with a letter or an underscore, so no key is integer-like and the two mappings of the
  context are association lists in insertion order.
\<close>

section \<open>The Variant Engine\<close>

text \<open>
  Modelled from the spec: \<open>typeCaseForSelectionSet\<close> lives in
  \<open>arc-apollo-codegen-core/lib/compiler/visitors/typeCase\<close>, which is not among the
  sources.  Section 4.2 of the specification gives the algorithm: a direct field applies
  to every possible type; a selection guarded by a type condition (an inline condition or
  a fragment spread) applies to the possible types that the condition admits, which are
  the \<open>possibleTypes\<close> of the guarded selection set; the key of a possible type is the
  list, in source order, of the fields that apply to it; two possible types belong to the
  same variant if and only if their keys are equal.  Variants are listed in the order in
  which their first possible type appears.
\<close>

fun applicableFields :: "GraphQLType \<Rightarrow> SelectionSet \<Rightarrow> Field list"
  and applicableSelection :: "GraphQLType \<Rightarrow> Selection \<Rightarrow> Field list" where
  "applicableFields t (SelectionSet pts sels) = concat (map (applicableSelection t) sels)"
| "applicableSelection t (FieldSelection f) = [f]"
| "applicableSelection t (TypeCondition ty ss) =
     (if t \<in> set (possibleTypes ss) then applicableFields t ss else [])"
| "applicableSelection t (FragmentSpread n ss) =
     (if t \<in> set (possibleTypes ss) then applicableFields t ss else [])"

fun insertByKey :: "('a \<Rightarrow> 'k) \<Rightarrow> 'a \<Rightarrow> ('k \<times> 'a list) list \<Rightarrow> ('k \<times> 'a list) list" where
  "insertByKey key x [] = [(key x, [x])]"
| "insertByKey key x ((k, ys) # gs) =
     (if k = key x then (k, ys @ [x]) # gs else (k, ys) # insertByKey key x gs)"

definition groupByKey :: "('a \<Rightarrow> 'k) \<Rightarrow> 'a list \<Rightarrow> ('k \<times> 'a list) list" where
  "groupByKey key xs = foldl (\<lambda>gs x. insertByKey key x gs) [] xs"

definition variantsFor :: "SelectionSet \<Rightarrow> Variant list" where
  "variantsFor ss =
     map (\<lambda>(k, ts). Variant ts (map FieldSelection k))
       (groupByKey (\<lambda>t. applicableFields t ss) (possibleTypes ss))"


section \<open>codeGeneration.ts: the TypeScript emitter\<close>

subsection \<open>What the emitter imports\<close>

text \<open>
  \<open>typeCaseForSelectionSet(...)\<close> returns a \<open>TypeCase\<close>, of which the emitter reads
  \<open>exhaustiveVariants\<close>.
\<close>

record TypeCase =
  exhaustiveVariants :: "Variant list"

text \<open>
  \<open>language.ts\<close> (the class \<open>TypescriptGenerator\<close>) and \<open>@babel/types\<close> are not among
  the sources.  Their builders only assemble syntax trees, so each is kept as a
  constructor that records the call and its arguments: \<open>InterfaceDeclaration n ps k\<close> is
  \<open>this.interface(n, ps, {keyInheritsNullability: k})\<close>, \<open>TypeAliasGenericUnion\<close>,
  \<open>EnumerationDeclaration\<close>, \<open>InputObjectDeclaration\<close> and \<open>ExportDeclaration\<close> are the
  methods of the same names, \<open>TypeFromGraphQLType t n\<close> is \<open>this.typeFromGraphQLType(t, n)\<close>,
  \<open>TSTypeReference n\<close> is \<open>t.TSTypeReference(t.identifier(n))\<close> and \<open>TSLiteralType s\<close>
  is \<open>t.TSLiteralType(t.stringLiteral(s))\<close>.
\<close>

datatype TSType =
    TSUnionType "TSType list"
  | TSLiteralType string
  | TSTypeReference string
  | TypeFromGraphQLType GraphQLType "string option"

record ObjectProperty =
  propName :: string
  propDescription :: "string option"
  propType :: TSType

datatype Declaration =
    InterfaceDeclaration string "ObjectProperty list" bool
  | TypeAliasGenericUnion string "TSType list"
  | EnumerationDeclaration GraphQLType
  | InputObjectDeclaration GraphQLType
  | ExportDeclaration Declaration

datatype Printable = Text string | Node Declaration

text \<open>
  The functions that the emitter calls and whose code is not among the sources are
  parameters of the model: the two visitors of the core, the separator that
  \<open>nameFromScopeStack\<close> puts between the segments of the scope stack, and the rendering
  of the printer's queue.
\<close>

record 'out Deps =
  typeCaseForSelectionSet :: "SelectionSet \<Rightarrow> bool option \<Rightarrow> TypeCase"
  collectAndMergeFields :: "Variant \<Rightarrow> bool option \<Rightarrow> Field list"
  scopeSeparator :: string
  printQueue :: "Printable list \<Rightarrow> 'out"

text \<open>
  Modelled from the spec: \<open>nameFromScopeStack\<close> is a method of \<open>language.ts\<close>.
  Section 4.4 of the specification gives its contract: the name is the join of the stack
  by a fixed separator.  \<open>joinWith\<close> is \<open>Array.prototype.join\<close>.
\<close>

fun joinWith :: "string \<Rightarrow> string list \<Rightarrow> string" where
  "joinWith sep [] = []"
| "joinWith sep [x] = x"
| "joinWith sep (x # y # ys) = x @ sep @ joinWith sep (y # ys)"

definition nameFromScopeStack :: "'out Deps \<Rightarrow> string list \<Rightarrow> string" where
  "nameFromScopeStack D scope = joinWith (scopeSeparator D) scope"

subsection \<open>The generator and its printer\<close>

text \<open>
  \<open>TypescriptAPIGenerator\<close> holds the context, a printer and the scope stack.
  \<open>printer.ts\<close> is not among the sources: the printer is the queue of what was enqueued,
  and \<open>printAndClear\<close> renders the queue and empties it.

  A method that can throw, or whose recursion may not end, returns \<open>None\<close> when the fuel
  runs out, \<open>Some (Inl e)\<close> when it throws \<open>e\<close>, and \<open>Some (Inr (x, g))\<close> when it returns
  \<open>x\<close> and leaves the generator in state \<open>g\<close>.
\<close>

record Generator =
  genContext :: CompilerContext
  printer :: "Printable list"
  scopeStack :: "string list"

datatype js_error = TypeError string | Error string

type_synonym 'a res = "(js_error + 'a \<times> Generator) option"

text \<open>The constructor, \<open>printer.enqueue\<close>, \<open>printer.printAndClear\<close> and the two stack methods.
  \<open>Array.prototype.pop\<close> on an empty array leaves it empty.\<close>

definition newGenerator :: "CompilerContext \<Rightarrow> Generator" where
  "newGenerator ctx = \<lparr> genContext = ctx, printer = [], scopeStack = [] \<rparr>"

definition enqueue :: "Printable \<Rightarrow> Generator \<Rightarrow> Generator" where
  "enqueue p g = g\<lparr> printer := printer g @ [p] \<rparr>"

definition printAndClear :: "'out Deps \<Rightarrow> Generator \<Rightarrow> 'out \<times> Generator" where
  "printAndClear D g = (printQueue D (printer g), g\<lparr> printer := [] \<rparr>)"

definition scopeStackPush :: "string \<Rightarrow> Generator \<Rightarrow> Generator" where
  "scopeStackPush name g = g\<lparr> scopeStack := scopeStack g @ [name] \<rparr>"

definition scopeStackPop :: "Generator \<Rightarrow> Generator" where
  "scopeStackPop g = g\<lparr> scopeStack := butlast (scopeStack g) \<rparr>"

definition nl :: string where
  "nl = [CHR 0x0A]"

definition fileHeader :: "Generator \<Rightarrow> Generator" where
  "fileHeader g =
     enqueue (Text (''/* tslint:disable */'' @ nl
        @ ''// This file was automatically generated and should not be edited.'')) g"

text \<open>
  \<open>getTypeCasesForSelectionSet\<close> and \<open>getVariantsForSelectionSet\<close>: the visitor of the
  core is called with the selection set and the option of the context.
\<close>

definition getTypeCasesForSelectionSet :: "'out Deps \<Rightarrow> Generator \<Rightarrow> SelectionSet \<Rightarrow> TypeCase" where
  "getTypeCasesForSelectionSet D g selectionSet =
     typeCaseForSelectionSet D selectionSet
       (mergeInFieldsFromFragmentSpreads (options (genContext g)))"

definition getVariantsForSelectionSet :: "'out Deps \<Rightarrow> Generator \<Rightarrow> SelectionSet \<Rightarrow> Variant list" where
  "getVariantsForSelectionSet D g selectionSet =
     exhaustiveVariants (getTypeCasesForSelectionSet D g selectionSet)"

text \<open>
  \<open>field.alias ? field.alias : field.name\<close>, the name of the property in
  \<open>handleFieldValue\<close> and \<open>handleFieldSelectionSetValue\<close>: an empty alias is falsy.
\<close>

definition aliasOrName :: "Field \<Rightarrow> string" where
  "aliasOrName field =
     (case fieldAlias field of
        None \<Rightarrow> fieldName field
      | Some a \<Rightarrow> if a \<noteq> [] then a else fieldName field)"

definition handleFieldValue :: "Field \<Rightarrow> Variant \<Rightarrow> ObjectProperty" where
  "handleFieldValue field variant =
     (if fieldName field = ''__typename'' then
        \<lparr> propName = aliasOrName field,
          propDescription = fieldDescription field,
          propType = TSUnionType
            (map (\<lambda>type. TSLiteralType (typeToString type)) (variantPossibleTypes variant)) \<rparr>
      else
        \<lparr> propName = aliasOrName field,
          propDescription = fieldDescription field,
          propType = TypeFromGraphQLType (fieldType field) None \<rparr>)"

text \<open>
  Sequencing of methods that work on the generator: a throw or the end of the fuel ends
  the sequence.  \<open>mapG\<close> is \<open>Array.prototype.map\<close> (and \<open>forEach\<close>) with a callback that
  works on the generator, from left to right.
\<close>

definition bindG :: "'a res \<Rightarrow> ('a \<Rightarrow> Generator \<Rightarrow> 'b res) \<Rightarrow> 'b res" where
  "bindG m k =
     (case m of
        None \<Rightarrow> None
      | Some (Inl e) \<Rightarrow> Some (Inl e)
      | Some (Inr (x, g)) \<Rightarrow> k x g)"

definition returnG :: "'a \<Rightarrow> Generator \<Rightarrow> 'a res" where
  "returnG x g = Some (Inr (x, g))"

definition throwG :: "js_error \<Rightarrow> 'a res" where
  "throwG e = Some (Inl e)"

fun mapG :: "('a \<Rightarrow> Generator \<Rightarrow> 'b res) \<Rightarrow> 'a list \<Rightarrow> Generator \<Rightarrow> 'b list res" where
  "mapG f [] g = returnG [] g"
| "mapG f (x # xs) g =
     bindG (f x g) (\<lambda>y g1. bindG (mapG f xs g1) (\<lambda>ys g2. returnG (y # ys) g2))"

text \<open>
  The callback that \<open>interfacesForFragment\<close> and \<open>handleFieldSelectionSetValue\<close> run for
  each variant when there is not exactly one: push \<open>variant.possibleTypes[0].toString()\<close>
  (a \<open>TypeError\<close> when the variant has no possible type), compute the properties, name the
  interface after the scope stack, enqueue it, pop, and hand back the name.
  \<open>getProperties\<close> stands for \<open>this.getPropertiesForVariant\<close>.
\<close>

definition variantInterface ::
  "(Variant option \<Rightarrow> Generator \<Rightarrow> ObjectProperty list res) \<Rightarrow> 'out Deps
     \<Rightarrow> Variant \<Rightarrow> Generator \<Rightarrow> string res" where
  "variantInterface getProperties D variant g =
     (case js_first (variantPossibleTypes variant) of
        None \<Rightarrow> throwG (TypeError ''Cannot read property toString of undefined'')
      | Some type0 \<Rightarrow>
          bindG (getProperties (Some variant) (scopeStackPush (typeToString type0) g))
            (\<lambda>properties g1.
               let identifierName = nameFromScopeStack D (scopeStack g1);
                   g2 = enqueue (Node (ExportDeclaration
                          (InterfaceDeclaration identifierName properties False))) g1
               in returnG identifierName (scopeStackPop g2)))"

text \<open>
  \<open>handleFieldSelectionSetValue\<close>.  Its only caller passes a field that has a selection
  set; without one, the visitor would be handed \<open>undefined\<close>.
\<close>

definition handleFieldSelectionSetValue ::
  "(Variant option \<Rightarrow> Generator \<Rightarrow> ObjectProperty list res) \<Rightarrow> 'out Deps
     \<Rightarrow> string \<Rightarrow> Field \<Rightarrow> Generator \<Rightarrow> ObjectProperty res" where
  "handleFieldSelectionSetValue getProperties D generatedIdentifier field g =
     (case fieldSelectionSet field of
        None \<Rightarrow> throwG (TypeError ''Cannot read property possibleTypes of undefined'')
      | Some selectionSet \<Rightarrow>
          (let type = TypeFromGraphQLType (fieldType field) (Some generatedIdentifier);
               variants = exhaustiveVariants (getTypeCasesForSelectionSet D g selectionSet);
               result = \<lparr> propName = aliasOrName field,
                          propDescription = fieldDescription field,
                          propType = type \<rparr>
           in if length variants = 1 then
                bindG (getProperties (js_first variants) g)
                  (\<lambda>properties g1.
                     returnG result
                       (enqueue (Node (ExportDeclaration
                          (InterfaceDeclaration (nameFromScopeStack D (scopeStack g1))
                             properties False))) g1))
              else
                bindG (mapG (variantInterface getProperties D) variants g)
                  (\<lambda>identifiers g1.
                     returnG result
                       (enqueue (Node (ExportDeclaration
                          (TypeAliasGenericUnion generatedIdentifier
                             (map TSTypeReference identifiers)))) g1))))"

text \<open>
  The callback of \<open>fields.map\<close> in \<open>getPropertiesForVariant\<close>; the segment pushed is
  \<open>field.alias !== undefined ? field.alias : field.name\<close>.
\<close>

definition propertyForField ::
  "(Variant option \<Rightarrow> Generator \<Rightarrow> ObjectProperty list res) \<Rightarrow> 'out Deps
     \<Rightarrow> Variant \<Rightarrow> Field \<Rightarrow> Generator \<Rightarrow> ObjectProperty res" where
  "propertyForField getProperties D variant field g =
     (let fieldName' = (case fieldAlias field of None \<Rightarrow> fieldName field | Some a \<Rightarrow> a);
          g1 = scopeStackPush fieldName' g
      in bindG
           (if fieldSelectionSet field \<noteq> None then
              handleFieldSelectionSetValue getProperties D
                (nameFromScopeStack D (scopeStack g1)) field g1
            else returnG (handleFieldValue field variant) g1)
           (\<lambda>res g2. returnG res (scopeStackPop g2)))"

text \<open>
  \<open>getPropertiesForVariant\<close>.  It calls itself through \<open>handleFieldSelectionSetValue\<close> on
  variants that the visitors return, so its recursion is bounded by fuel, one unit for each
  nested call.  The callers pass \<open>variants[0]\<close>, which is \<open>undefined\<close> (\<open>None\<close>) when
  there is no variant; \<open>collectAndMergeFields\<close> then reads a property of \<open>undefined\<close>,
  which throws a \<open>TypeError\<close>.
\<close>

primrec getPropertiesForVariant ::
  "nat \<Rightarrow> 'out Deps \<Rightarrow> Variant option \<Rightarrow> Generator \<Rightarrow> ObjectProperty list res" where
  "getPropertiesForVariant 0 D variant g = None"
| "getPropertiesForVariant (Suc fuel) D variant g =
     (case variant of
        None \<Rightarrow> throwG (TypeError ''Cannot read property selections of undefined'')
      | Some v \<Rightarrow>
          mapG (propertyForField (getPropertiesForVariant fuel D) D v)
            (collectAndMergeFields D v (mergeInFieldsFromFragmentSpreads (options (genContext g))))
            g)"

text \<open>
  \<open>interfacesForOperation\<close> and \<open>interfacesForFragment\<close>; \<open>variablesInterface\<close> is the
  last statement of \<open>interfacesForOperation\<close>, the interface of the variables.
\<close>

definition separatorLine :: string where
  "separatorLine = ''// ===================================================='' "

definition operationComment :: "Operation \<Rightarrow> Printable" where
  "operationComment operation =
     Text (separatorLine @ nl
       @ ''// GraphQL '' @ operationType operation @ '' operation: ''
       @ operationName operation @ nl
       @ separatorLine)"

definition fragmentComment :: "Fragment \<Rightarrow> Printable" where
  "fragmentComment fragment =
     Text (separatorLine @ nl
       @ ''// GraphQL fragment: '' @ fragmentName fragment @ nl
       @ separatorLine)"

definition variablesInterface :: "Operation \<Rightarrow> Generator \<Rightarrow> Generator" where
  "variablesInterface operation g =
     (if length (variables operation) > 0 then
        (let interfaceName = operationName operation @ ''Variables'';
             g1 = scopeStackPush interfaceName g;
             g2 = enqueue (Node (ExportDeclaration
                    (InterfaceDeclaration interfaceName
                       (map (\<lambda>variable.
                               \<lparr> propName = variableName variable,
                                 propDescription = None,
                                 propType = TypeFromGraphQLType (variableType variable) None \<rparr>)
                          (variables operation))
                       True))) g1
         in scopeStackPop g2)
      else g)"

definition interfacesForOperation ::
  "nat \<Rightarrow> 'out Deps \<Rightarrow> Operation \<Rightarrow> Generator \<Rightarrow> unit res" where
  "interfacesForOperation fuel D operation g =
     (let g1 = scopeStackPush (operationName operation) g;
          g2 = enqueue (operationComment operation) g1;
          variants = getVariantsForSelectionSet D g2 (opSelectionSet operation);
          variant = js_first variants
      in bindG (getPropertiesForVariant fuel D variant g2)
           (\<lambda>properties g3.
              let g4 = enqueue (Node (ExportDeclaration
                         (InterfaceDeclaration (operationName operation) properties False))) g3;
                  g5 = scopeStackPop g4
              in returnG () (variablesInterface operation g5)))"

definition interfacesForFragment ::
  "nat \<Rightarrow> 'out Deps \<Rightarrow> Fragment \<Rightarrow> Generator \<Rightarrow> unit res" where
  "interfacesForFragment fuel D fragment g =
     (let g1 = scopeStackPush (fragmentName fragment) g;
          g2 = enqueue (fragmentComment fragment) g1;
          variants = getVariantsForSelectionSet D g2 (fragSelectionSet fragment)
      in if length variants = 1 then
           bindG (getPropertiesForVariant fuel D (js_first variants) g2)
             (\<lambda>properties g3.
                let name = nameFromScopeStack D (scopeStack g3);
                    g4 = enqueue (Node (ExportDeclaration
                           (InterfaceDeclaration name properties False))) g3
                in returnG () (scopeStackPop g4))
         else
           bindG (mapG (variantInterface (getPropertiesForVariant fuel D) D) variants g2)
             (\<lambda>unionMembers g3.
                let g4 = enqueue (Node (ExportDeclaration
                           (TypeAliasGenericUnion (nameFromScopeStack D (scopeStack g3))
                              (map TSTypeReference unionMembers)))) g3
                in returnG () (scopeStackPop g4)))"

text \<open>
  \<open>printEnumsAndInputObjects\<close>; the two tests are \<open>instanceof GraphQLEnumType\<close> and
  \<open>instanceof GraphQLInputObjectType\<close>.
\<close>

definition isEnumType :: "GraphQLType \<Rightarrow> bool" where
  "isEnumType t = (case t of GraphQLEnumType _ \<Rightarrow> True | _ \<Rightarrow> False)"

definition isInputObjectType :: "GraphQLType \<Rightarrow> bool" where
  "isInputObjectType t = (case t of GraphQLInputObjectType _ \<Rightarrow> True | _ \<Rightarrow> False)"

definition typeAliasForEnumType :: "GraphQLType \<Rightarrow> Generator \<Rightarrow> Generator" where
  "typeAliasForEnumType enumType g = enqueue (Node (EnumerationDeclaration enumType)) g"

definition typeAliasForInputObjectType :: "GraphQLType \<Rightarrow> Generator \<Rightarrow> Generator" where
  "typeAliasForInputObjectType inputObjectType g =
     enqueue (Node (InputObjectDeclaration inputObjectType)) g"

definition printEnumsAndInputObjects :: "GraphQLType list \<Rightarrow> Generator \<Rightarrow> Generator" where
  "printEnumsAndInputObjects typesUsed' g =
     (let g1 = enqueue (Text (''//=============================================================='' @ nl
                 @ ''// START Enums and Input Objects'' @ nl
                 @ ''//=============================================================='')) g;
          g2 = foldl (\<lambda>g t. typeAliasForEnumType t g) g1 (filter isEnumType typesUsed');
          g3 = foldl (\<lambda>g t. typeAliasForInputObjectType t g) g2 (filter isInputObjectType typesUsed')
      in enqueue (Text (''//=============================================================='' @ nl
                 @ ''// END Enums and Input Objects'' @ nl
                 @ ''//=============================================================='')) g3)"

text \<open>
  \<open>generateSource\<close>: one file for each operation, then one for each fragment, then the
  common part.  A generated file holds \<open>sourcePath\<close>, \<open>fileName\<close> and the contents that
  the printer rendered.  \<open>getTypesUsedForOperation\<close> and \<open>reduceTypesUsed\<close> are not called
  by \<open>generateSource\<close> and are left out.
\<close>

record 'out GeneratedFile =
  sourcePath :: string
  fileName :: string
  content :: 'out

definition operationFile ::
  "nat \<Rightarrow> 'out Deps \<Rightarrow> Operation \<Rightarrow> Generator \<Rightarrow> 'out GeneratedFile res" where
  "operationFile fuel D operation g =
     bindG (interfacesForOperation fuel D operation (fileHeader g))
       (\<lambda>u g1.
          let (output, g2) = printAndClear D g1
          in returnG \<lparr> sourcePath = opFilePath operation,
                       fileName = operationName operation @ ''.ts'',
                       content = output \<rparr> g2)"

definition fragmentFile ::
  "nat \<Rightarrow> 'out Deps \<Rightarrow> Fragment \<Rightarrow> Generator \<Rightarrow> 'out GeneratedFile res" where
  "fragmentFile fuel D fragment g =
     bindG (interfacesForFragment fuel D fragment (fileHeader g))
       (\<lambda>u g1.
          let (output, g2) = printAndClear D g1
          in returnG \<lparr> sourcePath = fragFilePath fragment,
                       fileName = fragmentName fragment @ ''.ts'',
                       content = output \<rparr> g2)"

definition generateSource ::
  "nat \<Rightarrow> 'out Deps \<Rightarrow> CompilerContext \<Rightarrow> (js_error + 'out GeneratedFile list \<times> 'out) option" where
  "generateSource fuel D ctx =
     (case bindG (mapG (operationFile fuel D) (map snd (operations ctx)) (newGenerator ctx))
             (\<lambda>operationFiles g1.
                bindG (mapG (fragmentFile fuel D) (map snd (fragments ctx)) g1)
                  (\<lambda>fragmentFiles g2. returnG (operationFiles @ fragmentFiles) g2)) of
        None \<Rightarrow> None
      | Some (Inl e) \<Rightarrow> Some (Inl e)
      | Some (Inr (generatedFiles, g2)) \<Rightarrow>
          (let g3 = printEnumsAndInputObjects (typesUsed ctx) (fileHeader g2);
               (common, g4) = printAndClear D g3
           in Some (Inr (generatedFiles, common))))"

section \<open>generate.ts: the \<open>generate\<close> function\<close>

subsection \<open>What \<open>generate\<close> imports\<close>

text \<open>
  The loader, the validator, the two compilers, the serializer, the source generators of
  the other packages, the file system (\<open>localfs\<close>) and \<open>path\<close> are not among the
  sources and are parameters of the model.  Each of them that can throw returns a sum.
  The schema, the document, the legacy context and the state of the file system are type
  parameters.  \<open>isDirectory fs p\<close> is \<open>fs.statSync(p).isDirectory()\<close>, \<open>pathResolveDot\<close>
  is \<open>path.resolve(".")\<close>, and \<open>jsonStringify m\<close> is \<open>JSON.stringify(m, null, 2)\<close>.
  The result of \<open>generateSwiftSource\<close> is read through \<open>generatedFiles\<close> and \<open>output\<close>.
\<close>

record SwiftGenerator =
  swiftGeneratedFiles :: "(string \<times> string) list"
  swiftOutput :: string

record ('schema, 'doc, 'legacy, 'fs) GenerateDeps =
  loadAndMergeQueryDocuments :: "string list \<Rightarrow> string \<Rightarrow> js_error + 'doc"
  validateQueryDocument :: "'schema \<Rightarrow> 'doc \<Rightarrow> js_error + unit"
  compileToIR :: "'schema \<Rightarrow> 'doc \<Rightarrow> CompilerOptions \<Rightarrow> js_error + CompilerContext"
  compileToLegacyIR :: "'schema \<Rightarrow> 'doc \<Rightarrow> CompilerOptions \<Rightarrow> js_error + 'legacy"
  serializeToJSON :: "'legacy \<Rightarrow> js_error + string"
  generateSwiftSource :: "CompilerContext \<Rightarrow> bool \<Rightarrow> string option \<Rightarrow> js_error + SwiftGenerator"
  generateTypescriptLegacySource :: "'legacy \<Rightarrow> js_error + string"
  generateFlowLegacySource :: "'legacy \<Rightarrow> js_error + string"
  generateScalaSource :: "'legacy \<Rightarrow> js_error + string"
  generateFlowSource :: "CompilerContext \<Rightarrow> js_error + string GeneratedFile list \<times> string"
  generateTypescriptSource :: "CompilerContext \<Rightarrow> js_error + string GeneratedFile list \<times> string"
  existsSync :: "'fs \<Rightarrow> string \<Rightarrow> bool"
  isDirectory :: "'fs \<Rightarrow> string \<Rightarrow> bool"
  mkdirSync :: "string \<Rightarrow> 'fs \<Rightarrow> js_error + 'fs"
  writeFileSync :: "string \<Rightarrow> string option \<Rightarrow> 'fs \<Rightarrow> js_error + 'fs"
  pathJoin :: "string \<Rightarrow> string \<Rightarrow> string"
  pathDirname :: "string \<Rightarrow> string"
  pathResolveDot :: string
  jsonStringify :: "(string \<times> string \<times> string) list \<Rightarrow> string"

subsection \<open>State and effects\<close>

text \<open>
  The state that \<open>generate\<close> works on: the file system, the options object of the
  caller (which \<open>generate\<close> may mutate), and the local variable \<open>writtenFiles\<close>.  \<open>calls\<close>
  records, in order, every call of \<open>fs.mkdirSync\<close>, \<open>fs.writeFileSync\<close>, \<open>console.log\<close>,
  \<open>compileToIR\<close> and \<open>compileToLegacyIR\<close> with its arguments; the data of a write
  is \<open>None\<close> when it is \<open>undefined\<close>.  An action returns \<open>Inl e\<close> when it throws \<open>e\<close>;
  the state it leaves behind is kept either way.
\<close>

datatype call =
    MkdirSync string
  | WriteFileSync string "string option"
  | ConsoleLog "string option"
  | CompileToIR CompilerOptions
  | CompileToLegacyIR CompilerOptions

record 'fs GenerateState =
  fileSystem :: 'fs
  calls :: "call list"
  callerOptions :: CompilerOptions
  writtenFiles :: nat

type_synonym ('a, 'fs) io = "'fs GenerateState \<Rightarrow> (js_error + 'a) \<times> 'fs GenerateState"

definition bindS :: "('a, 'fs) io \<Rightarrow> ('a \<Rightarrow> ('b, 'fs) io) \<Rightarrow> ('b, 'fs) io" where
  "bindS m k s = (case m s of (Inl e, s') \<Rightarrow> (Inl e, s') | (Inr x, s') \<Rightarrow> k x s')"

definition returnS :: "'a \<Rightarrow> ('a, 'fs) io" where
  "returnS x s = (Inr x, s)"

definition liftS :: "js_error + 'a \<Rightarrow> ('a, 'fs) io" where
  "liftS r s = (r, s)"

fun forEachS :: "('a \<Rightarrow> (unit, 'fs) io) \<Rightarrow> 'a list \<Rightarrow> (unit, 'fs) io" where
  "forEachS f [] = returnS ()"
| "forEachS f (x # xs) = bindS (f x) (\<lambda>u. forEachS f xs)"

definition fs_mkdirSync :: "('schema, 'doc, 'legacy, 'fs) GenerateDeps \<Rightarrow> string \<Rightarrow> (unit, 'fs) io" where
  "fs_mkdirSync D path s =
     (let s1 = s\<lparr> calls := calls s @ [MkdirSync path] \<rparr>
      in case mkdirSync D path (fileSystem s) of
           Inl e \<Rightarrow> (Inl e, s1)
         | Inr fs' \<Rightarrow> (Inr (), s1\<lparr> fileSystem := fs' \<rparr>))"

definition fs_writeFileSync ::
  "('schema, 'doc, 'legacy, 'fs) GenerateDeps \<Rightarrow> string \<Rightarrow> string option \<Rightarrow> (unit, 'fs) io" where
  "fs_writeFileSync D path data s =
     (let s1 = s\<lparr> calls := calls s @ [WriteFileSync path data] \<rparr>
      in case writeFileSync D path data (fileSystem s) of
           Inl e \<Rightarrow> (Inl e, s1)
         | Inr fs' \<Rightarrow> (Inr (), s1\<lparr> fileSystem := fs' \<rparr>))"

definition console_log :: "string option \<Rightarrow> (unit, 'fs) io" where
  "console_log output s = (Inr (), s\<lparr> calls := calls s @ [ConsoleLog output] \<rparr>)"

definition callCompileToIR ::
  "('schema, 'doc, 'legacy, 'fs) GenerateDeps \<Rightarrow> 'schema \<Rightarrow> 'doc \<Rightarrow> CompilerOptions
     \<Rightarrow> (CompilerContext, 'fs) io" where
  "callCompileToIR D schema document opts s =
     (compileToIR D schema document opts, s\<lparr> calls := calls s @ [CompileToIR opts] \<rparr>)"

definition callCompileToLegacyIR ::
  "('schema, 'doc, 'legacy, 'fs) GenerateDeps \<Rightarrow> 'schema \<Rightarrow> 'doc \<Rightarrow> CompilerOptions
     \<Rightarrow> ('legacy, 'fs) io" where
  "callCompileToLegacyIR D schema document opts s =
     (compileToLegacyIR D schema document opts, s\<lparr> calls := calls s @ [CompileToLegacyIR opts] \<rparr>)"

definition addWritten :: "nat \<Rightarrow> (unit, 'fs) io" where
  "addWritten n s = (Inr (), s\<lparr> writtenFiles := writtenFiles s + n \<rparr>)"

text \<open>
  An object with string keys, in insertion order: assigning to a key that exists
  replaces its value in place.
\<close>

fun objectSet :: "string \<Rightarrow> 'v \<Rightarrow> (string \<times> 'v) list \<Rightarrow> (string \<times> 'v) list" where
  "objectSet k v [] = [(k, v)]"
| "objectSet k v ((k', v') # kvs) =
     (if k' = k then (k, v) # kvs else (k', v') # objectSet k v kvs)"

subsection \<open>The functions of generate.ts\<close>

definition writeGeneratedFiles ::
  "('schema, 'doc, 'legacy, 'fs) GenerateDeps \<Rightarrow> (string \<times> string) list \<Rightarrow> string \<Rightarrow> (unit, 'fs) io" where
  "writeGeneratedFiles D generatedFiles outputDirectory =
     forEachS (\<lambda>(fileName, output).
                 fs_writeFileSync D (pathJoin D outputDirectory fileName) (Some output))
       generatedFiles"

definition writeOperationIdsMap ::
  "('schema, 'doc, 'legacy, 'fs) GenerateDeps \<Rightarrow> CompilerContext \<Rightarrow> (unit, 'fs) io" where
  "writeOperationIdsMap D context' =
     (let operationIdsMap =
            foldl (\<lambda>m operation.
                     objectSet (case operationId operation of None \<Rightarrow> ''undefined'' | Some i \<Rightarrow> i)
                       (operationName operation, opSource operation) m)
              [] (map snd (operations context'))
      in case operationIdsPath (options context') of
           None \<Rightarrow> liftS (Inl (TypeError ''The path argument must be of type string''))
         | Some path \<Rightarrow>
             fs_writeFileSync D path
               (Some (jsonStringify D operationIdsMap)))"

text \<open>
  The third statement of \<open>generate\<close>: an output path without a dot that does not exist
  is created as a directory.
\<close>

definition ensureOutputDirectory ::
  "('schema, 'doc, 'legacy, 'fs) GenerateDeps \<Rightarrow> string \<Rightarrow> (unit, 'fs) io" where
  "ensureOutputDirectory D outputPath s =
     (if length (js_split CHR ''.'' outputPath) \<le> 1 \<and> \<not> existsSync D (fileSystem s) outputPath
      then fs_mkdirSync D outputPath s
      else returnS () s)"

text \<open>The three branches of \<open>generate\<close>, by target.\<close>

definition generateSwift ::
  "('schema, 'doc, 'legacy, 'fs) GenerateDeps \<Rightarrow> 'schema \<Rightarrow> 'doc \<Rightarrow> string \<Rightarrow> string option
     \<Rightarrow> (unit, 'fs) io" where
  "generateSwift D schema document outputPath only =
     bindS (\<lambda>s. returnS () (s\<lparr> callerOptions := (callerOptions s)\<lparr> addTypename := Some True \<rparr> \<rparr>))
       (\<lambda>u. bindS (\<lambda>s. callCompileToIR D schema document (callerOptions s) s)
         (\<lambda>context' s.
            (let outputIndividualFiles =
                   (existsSync D (fileSystem s) outputPath \<and> isDirectory D (fileSystem s) outputPath)
             in bindS (liftS (generateSwiftSource D context' outputIndividualFiles only))
                  (\<lambda>generator.
                     bindS
                       (if outputIndividualFiles then
                          bindS (writeGeneratedFiles D (swiftGeneratedFiles generator) outputPath)
                            (\<lambda>u. addWritten (length (swiftGeneratedFiles generator)))
                        else
                          bindS (fs_writeFileSync D outputPath (Some (swiftOutput generator)))
                            (\<lambda>u. addWritten 1))
                       (\<lambda>u s. if generateOperationIds (callerOptions s) then
                                 bindS (writeOperationIdsMap D context') (\<lambda>u. addWritten 1) s
                               else returnS () s)))
              s))"

fun collectNextToSources ::
  "('schema, 'doc, 'legacy, 'fs) GenerateDeps \<Rightarrow> string \<Rightarrow> string \<Rightarrow> string GeneratedFile list
     \<Rightarrow> (string \<times> string) list \<Rightarrow> ((string \<times> string) list, 'fs) io" where
  "collectNextToSources D outputPath common [] outFiles = returnS outFiles"
| "collectNextToSources D outputPath common (file # files) outFiles =
     (let dir = pathJoin D (pathDirname D (sourcePath file)) outputPath
      in bindS (\<lambda>s. if \<not> existsSync D (fileSystem s) dir then fs_mkdirSync D dir s
                     else returnS () s)
           (\<lambda>u. collectNextToSources D outputPath common files
                  (objectSet (pathJoin D dir (fileName file)) (content file @ common) outFiles)))"

definition generateFlowOrTypescript ::
  "('schema, 'doc, 'legacy, 'fs) GenerateDeps \<Rightarrow> 'schema \<Rightarrow> 'doc \<Rightarrow> string \<Rightarrow> string \<Rightarrow> bool
     \<Rightarrow> (unit, 'fs) io" where
  "generateFlowOrTypescript D schema document outputPath target nextToSources =
     bindS (\<lambda>s. callCompileToIR D schema document (callerOptions s) s)
       (\<lambda>context'.
          bindS (liftS (if target = ''flow'' then generateFlowSource D context'
                        else generateTypescriptSource D context'))
            (\<lambda>(generatedFiles, common) s.
               if nextToSources then
                 bindS (collectNextToSources D outputPath common generatedFiles [])
                   (\<lambda>outFiles.
                      bindS (writeGeneratedFiles D outFiles (pathResolveDot D))
                        (\<lambda>u. addWritten (length outFiles)))
                   s
               else if existsSync D (fileSystem s) outputPath \<and> isDirectory D (fileSystem s) outputPath then
                 (let outFiles =
                        foldl (\<lambda>outFiles file.
                                 objectSet (fileName file) (content file @ common) outFiles)
                          [] generatedFiles
                  in bindS (writeGeneratedFiles D outFiles outputPath)
                       (\<lambda>u. addWritten (length outFiles)))
                   s
               else
                 bindS (fs_writeFileSync D outputPath
                          (Some (joinWith nl (map content generatedFiles) @ common)))
                   (\<lambda>u. addWritten 1)
                   s))"

definition generateLegacy ::
  "('schema, 'doc, 'legacy, 'fs) GenerateDeps \<Rightarrow> 'schema \<Rightarrow> 'doc \<Rightarrow> string \<Rightarrow> string
     \<Rightarrow> (unit, 'fs) io" where
  "generateLegacy D schema document outputPath target =
     bindS (\<lambda>s. callCompileToLegacyIR D schema document (callerOptions s) s)
       (\<lambda>context'.
          bindS (liftS
                   (if target = ''json'' then map_sum id Some (serializeToJSON D context')
                    else if target = ''ts-legacy'' \<or> target = ''typescript-legacy''
                      then map_sum id Some (generateTypescriptLegacySource D context')
                    else if target = ''flow-legacy''
                      then map_sum id Some (generateFlowLegacySource D context')
                    else if target = ''scala''
                      then map_sum id Some (generateScalaSource D context')
                    else Inr None))
            (\<lambda>output.
               if outputPath \<noteq> [] then
                 bindS (fs_writeFileSync D outputPath output) (\<lambda>u. addWritten 1)
               else console_log output))"

definition generateForTarget ::
  "('schema, 'doc, 'legacy, 'fs) GenerateDeps \<Rightarrow> 'schema \<Rightarrow> 'doc \<Rightarrow> string
     \<Rightarrow> string option \<Rightarrow> string \<Rightarrow> bool \<Rightarrow> (unit, 'fs) io" where
  "generateForTarget D schema document outputPath only target nextToSources =
     (if target = ''swift'' then generateSwift D schema document outputPath only
      else if target = ''flow'' \<or> target = ''typescript'' \<or> target = ''ts''
        then generateFlowOrTypescript D schema document outputPath target nextToSources
      else generateLegacy D schema document outputPath target)"

definition generate ::
  "('schema, 'doc, 'legacy, 'fs) GenerateDeps \<Rightarrow> string list \<Rightarrow> 'schema \<Rightarrow> string
     \<Rightarrow> string option \<Rightarrow> string \<Rightarrow> string \<Rightarrow> bool \<Rightarrow> (nat, 'fs) io" where
  "generate D inputPaths schema outputPath only target tagName nextToSources s0 =
     bindS (liftS (loadAndMergeQueryDocuments D inputPaths tagName))
       (\<lambda>document.
          bindS (liftS (validateQueryDocument D schema document))
            (\<lambda>u. bindS (ensureOutputDirectory D outputPath)
               (\<lambda>u. bindS
                  (generateForTarget D schema document outputPath only target nextToSources)
                  (\<lambda>u s. returnS (writtenFiles s) s))))
       (s0\<lparr> writtenFiles := 0 \<rparr>)"

section \<open>Predicates used by the statements\<close>

text \<open>
  Two generator states have the same scope when their scope stacks and contexts are
  equal; a method preserves the scope when every normal return leaves the scope as it
  found it.  \<open>returned\<close> holds of a normal return.
\<close>

definition sameScope :: "Generator \<Rightarrow> Generator \<Rightarrow> bool" where
  "sameScope g g' = (scopeStack g' = scopeStack g \<and> genContext g' = genContext g)"

definition preservesScope :: "('a \<Rightarrow> Generator \<Rightarrow> 'b res) \<Rightarrow> bool" where
  "preservesScope f = (\<forall>x g y g'. f x g = Some (Inr (y, g')) \<longrightarrow> sameScope g g')"

definition returned :: "'a res \<Rightarrow> bool" where
  "returned r = (case r of Some (Inr _) \<Rightarrow> True | _ \<Rightarrow> False)"

text \<open>
  What a generated file declares: the name of each interface with the names of its
  properties, and the name of each union alias with the names of its members.
\<close>

fun declarationShape :: "Declaration \<Rightarrow> (string \<times> string list) list" where
  "declarationShape (InterfaceDeclaration n ps k) = [(n, map propName ps)]"
| "declarationShape (TypeAliasGenericUnion n ms) =
     [(n, concat (map (\<lambda>m. case m of TSTypeReference r \<Rightarrow> [r] | _ \<Rightarrow> []) ms))]"
| "declarationShape (EnumerationDeclaration t) = []"
| "declarationShape (InputObjectDeclaration t) = []"
| "declarationShape (ExportDeclaration d) = declarationShape d"

definition declaredShapes :: "Printable list \<Rightarrow> (string \<times> string list) list" where
  "declaredShapes q = concat (map (\<lambda>p. case p of Text s \<Rightarrow> [] | Node d \<Rightarrow> declarationShape d) q)"

definition emittedShapes ::
  "(js_error + (Printable list) GeneratedFile list \<times> Printable list) option
     \<Rightarrow> (string \<times> string list) list" where
  "emittedShapes r =
     (case r of
        Some (Inr (files, common)) \<Rightarrow> concat (map (\<lambda>f. declaredShapes (content f)) files)
      | _ \<Rightarrow> [])"

text \<open>
  The segment that the emitter pushes for a variant, \<open>variant.possibleTypes[0].toString()\<close>;
  \<open>None\<close> when the variant has no possible type.
\<close>

definition variantScopeSegment :: "Variant \<Rightarrow> string option" where
  "variantScopeSegment variant = map_option typeToString (js_first (variantPossibleTypes variant))"

text \<open>
  The groups built by \<open>groupByKey\<close> are well formed when their keys are pairwise
  distinct and every group is non-empty and holds only elements of its key.
\<close>

definition groupsOk :: "('a \<Rightarrow> 'k) \<Rightarrow> ('k \<times> 'a list) list \<Rightarrow> bool" where
  "groupsOk key gs =
     (distinct (map fst gs) \<and> (\<forall>(k, ys) \<in> set gs. ys \<noteq> [] \<and> (\<forall>y \<in> set ys. key y = k)))"

text \<open>
  One method refines another when every outcome of the first (a return or a throw, not
  the end of the fuel) is the outcome of the second on the same input.
\<close>

definition refines :: "('a \<Rightarrow> Generator \<Rightarrow> 'b res) \<Rightarrow> ('a \<Rightarrow> Generator \<Rightarrow> 'b res) \<Rightarrow> bool" where
  "refines f f' = (\<forall>x g r. f x g = Some r \<longrightarrow> f' x g = Some r)"

text \<open>
  The calls of \<open>fs.writeFileSync\<close> and of the two compilers among the recorded calls.  An
  action is quiet when it neither calls a compiler nor touches the caller's options.
\<close>

definition isWriteFileSync :: "call \<Rightarrow> bool" where
  "isWriteFileSync c = (case c of WriteFileSync p d \<Rightarrow> True | _ \<Rightarrow> False)"

definition isCompileCall :: "call \<Rightarrow> bool" where
  "isCompileCall c = (case c of CompileToIR opts \<Rightarrow> True | CompileToLegacyIR opts \<Rightarrow> True | _ \<Rightarrow> False)"

definition quiet :: "('a, 'fs) io \<Rightarrow> bool" where
  "quiet m = (\<forall>s r s'. m s = (r, s') \<longrightarrow>
                callerOptions s' = callerOptions s
              \<and> filter isCompileCall (calls s') = filter isCompileCall (calls s))"

text \<open>
  The recursion of the emitter follows what the two visitors return, so whether it ends
  depends on them.  The visitors are decreasing for a measure on variants when every
  variant that \<open>typeCaseForSelectionSet\<close> returns for the selection set of a field is
  smaller than each variant for which \<open>collectAndMergeFields\<close> returns that field; the
  IR is a finite tree, and a visitor that only hands out what is nested in its argument
  is decreasing.  \<open>nonEmptyVariants\<close> holds when no variant that the visitor returns has
  an empty list of possible types, so that \<open>variant.possibleTypes[0]\<close> is defined.
\<close>

definition decreasing :: "'out Deps \<Rightarrow> (Variant \<Rightarrow> nat) \<Rightarrow> bool" where
  "decreasing D \<mu> =
     (\<forall>v m m' f ss v'.
        f \<in> set (collectAndMergeFields D v m) \<and> fieldSelectionSet f = Some ss
        \<and> v' \<in> set (exhaustiveVariants (typeCaseForSelectionSet D ss m'))
        \<longrightarrow> \<mu> v' < \<mu> v)"

definition nonEmptyVariants :: "'out Deps \<Rightarrow> bool" where
  "nonEmptyVariants D =
     (\<forall>ss m v. v \<in> set (exhaustiveVariants (typeCaseForSelectionSet D ss m))
        \<longrightarrow> variantPossibleTypes v \<noteq> [])"

text \<open>
  A measure for which the Variant Engine of the specification is decreasing: the weight
  of a selection set counts its selections and, through the fields, the selection sets
  nested in it.
\<close>

fun weightSelectionSet :: "SelectionSet \<Rightarrow> nat"
  and weightSelection :: "Selection \<Rightarrow> nat"
  and weightField :: "Field \<Rightarrow> nat" where
  "weightSelectionSet (SelectionSet pts sels) = Suc (sum_list (map weightSelection sels))"
| "weightSelection (FieldSelection f) = Suc (weightField f)"
| "weightSelection (TypeCondition t ss) = Suc (weightSelectionSet ss)"
| "weightSelection (FragmentSpread n ss) = Suc (weightSelectionSet ss)"
| "weightField (Field n a t d sso) = (case sso of None \<Rightarrow> 0 | Some ss \<Rightarrow> Suc (weightSelectionSet ss))"

definition weightVariant :: "Variant \<Rightarrow> nat" where
  "weightVariant v = sum_list (map weightSelection (variantSelections v))"

text \<open>
  Fuel that is enough for a context: more than the measure of every variant of the root
  selection set of an operation or a fragment, for each of the three values that the
  option \<open>mergeInFieldsFromFragmentSpreads\<close> can have.
\<close>

definition rootSelectionSets :: "CompilerContext \<Rightarrow> SelectionSet list" where
  "rootSelectionSets ctx =
     map (\<lambda>p. opSelectionSet (snd p)) (operations ctx)
     @ map (\<lambda>p. fragSelectionSet (snd p)) (fragments ctx)"

definition rootVariants :: "'out Deps \<Rightarrow> CompilerContext \<Rightarrow> Variant list" where
  "rootVariants D ctx =
     concat (map (\<lambda>ss. concat (map (\<lambda>m. exhaustiveVariants (typeCaseForSelectionSet D ss m))
                                  [None, Some True, Some False]))
               (rootSelectionSets ctx))"

definition enoughFuel :: "'out Deps \<Rightarrow> (Variant \<Rightarrow> nat) \<Rightarrow> CompilerContext \<Rightarrow> nat" where
  "enoughFuel D \<mu> ctx = Suc (sum_list (map \<mu> (rootVariants D ctx)))"

text \<open>
  The variants \<open>vs\<close> partition the possible types of the selection set \<open>ss\<close>: together
  they hold exactly its possible types, every possible type is in exactly one variant, and
  no variant is empty.  A visitor is partitioning when this holds of all that it returns.
\<close>

definition partitionsPossibleTypes :: "SelectionSet \<Rightarrow> Variant list \<Rightarrow> bool" where
  "partitionsPossibleTypes ss vs =
     (\<Union> (set (map (\<lambda>v. set (variantPossibleTypes v)) vs)) = set (possibleTypes ss)
      \<and> (\<forall>t. length (filter (\<lambda>v. t \<in> set (variantPossibleTypes v)) vs)
                = (if t \<in> set (possibleTypes ss) then 1 else 0))
      \<and> list_all (\<lambda>v. variantPossibleTypes v \<noteq> []) vs)"

definition partitioning :: "'out Deps \<Rightarrow> bool" where
  "partitioning D =
     (\<forall>ss m. partitionsPossibleTypes ss (exhaustiveVariants (typeCaseForSelectionSet D ss m)))"

text \<open>
  An action of \<open>generate\<close> keeps the recorded calls when none of them is lost, and it
  records a call when that call is among the recorded calls afterwards, whether the
  action returns or throws.
\<close>

definition keepsCalls :: "('a, 'fs) io \<Rightarrow> bool" where
  "keepsCalls m = (\<forall>s r s'. m s = (r, s') \<longrightarrow> set (calls s) \<subseteq> set (calls s'))"

definition recordsCall :: "call \<Rightarrow> ('a, 'fs) io \<Rightarrow> bool" where
  "recordsCall c m = (\<forall>s r s'. m s = (r, s') \<longrightarrow> c \<in> set (calls s'))"

section \<open>Concrete inputs\<close>

text \<open>
  A stand-in for \<open>collectAndMergeFields\<close> on inputs without nested conditions: the fields
  among the variant's selections, in order, the first of each output key.
\<close>

fun firstOfEachKey :: "Field list \<Rightarrow> string list \<Rightarrow> Field list" where
  "firstOfEachKey [] seen = []"
| "firstOfEachKey (f # fs) seen =
     (let k = (case fieldAlias f of None \<Rightarrow> fieldName f | Some a \<Rightarrow> a)
      in if k \<in> set seen then firstOfEachKey fs seen else f # firstOfEachKey fs (k # seen))"

definition exampleCollectFields :: "Variant \<Rightarrow> bool option \<Rightarrow> Field list" where
  "exampleCollectFields v merge =
     firstOfEachKey
       (concat (map (\<lambda>s. case s of FieldSelection f \<Rightarrow> [f] | _ \<Rightarrow> []) (variantSelections v))) []"

definition exampleDeps :: "(Printable list) Deps" where
  "exampleDeps =
     \<lparr> typeCaseForSelectionSet = (\<lambda>ss merge. \<lparr> exhaustiveVariants = variantsFor ss \<rparr>),
       collectAndMergeFields = exampleCollectFields,
       scopeSeparator = ''_'',
       printQueue = (\<lambda>q. q) \<rparr>"

definition defaultOptions :: CompilerOptions where
  "defaultOptions =
     \<lparr> passthroughCustomScalars = False, customScalarsPrefix = [], addTypename = None,
       namespace = None, operationIdsPath = None, generateOperationIds = False,
       mergeInFieldsFromFragmentSpreads = None, useFlowExactObjects = None,
       useFlowReadOnlyTypes = None, supportArcBlockSDK = None \<rparr>"

definition tString :: GraphQLType where "tString = GraphQLScalarType ''String''"
definition tSuccess :: GraphQLType where "tSuccess = GraphQLObjectType ''Success''"
definition tFailure :: GraphQLType where "tFailure = GraphQLObjectType ''Failure''"
definition tQuery :: GraphQLType where "tQuery = GraphQLObjectType ''Query''"

definition resultSelections :: SelectionSet where
  "resultSelections =
     SelectionSet [tSuccess, tFailure]
       [FieldSelection (Field ''__typename'' None (GraphQLNonNull tString) None None),
        TypeCondition tSuccess (SelectionSet [tSuccess]
          [FieldSelection (Field ''value'' None tString None None)]),
        TypeCondition tFailure (SelectionSet [tFailure]
          [FieldSelection (Field ''message'' None tString None None)])]"

definition exampleOperation :: Operation where
  "exampleOperation =
     \<lparr> operationType = ''query'', operationName = ''Run'',
       variables = [\<lparr> variableName = ''id'', variableType = GraphQLNonNull tString \<rparr>],
       opSelectionSet = SelectionSet [tQuery]
         [FieldSelection (Field ''result'' None (GraphQLUnionType ''Result'') None
            (Some resultSelections))],
       opFilePath = ''src/run.graphql'', operationId = None, opSource = [] \<rparr>"

definition exampleFragment :: Fragment where
  "exampleFragment =
     \<lparr> fragmentName = ''Outcome'', fragSelectionSet = resultSelections,
       fragFilePath = ''src/outcome.graphql'' \<rparr>"

definition exampleContext :: CompilerContext where
  "exampleContext =
     \<lparr> operations = [(''Run'', exampleOperation)], fragments = [(''Outcome'', exampleFragment)],
       typesUsed = [], options = defaultOptions \<rparr>"


definition resultField :: Field where
  "resultField = Field ''result'' None (GraphQLUnionType ''Result'') None (Some resultSelections)"

definition outerGenerator :: Generator where
  "outerGenerator = scopeStackPush ''Outer'' (newGenerator exampleContext)"

text \<open>The two variants of \<open>resultSelections\<close>.\<close>

definition successVariant :: Variant where
  "successVariant =
     Variant [tSuccess]
       [FieldSelection (Field ''__typename'' None (GraphQLNonNull tString) None None),
        FieldSelection (Field ''value'' None tString None None)]"

definition failureVariant :: Variant where
  "failureVariant =
     Variant [tFailure]
       [FieldSelection (Field ''__typename'' None (GraphQLNonNull tString) None None),
        FieldSelection (Field ''message'' None tString None None)]"

text \<open>
  An operation whose root selection set has two variants; a visitor that puts all
  possible types into one variant, and one that merges no field.
\<close>

definition twoVariantOperation :: Operation where
  "twoVariantOperation =
     \<lparr> operationType = ''query'', operationName = ''Both'', variables = [],
       opSelectionSet = resultSelections,
       opFilePath = ''src/both.graphql'', operationId = None, opSource = [] \<rparr>"

definition singleVariantDeps :: "(Printable list) Deps" where
  "singleVariantDeps =
     exampleDeps\<lparr> typeCaseForSelectionSet :=
       (\<lambda>ss merge. \<lparr> exhaustiveVariants =
          [Variant (possibleTypes ss)
             (concat (map (\<lambda>s. case s of FieldSelection f \<Rightarrow> [s] | _ \<Rightarrow> []) (selections ss)))] \<rparr>) \<rparr>"

definition noFieldsDeps :: "(Printable list) Deps" where
  "noFieldsDeps = exampleDeps\<lparr> collectAndMergeFields := (\<lambda>variant merge. []) \<rparr>"

definition fragmentOnlyContext :: CompilerContext where
  "fragmentOnlyContext =
     \<lparr> operations = [], fragments = [(''Outcome'', exampleFragment)],
       typesUsed = [], options = defaultOptions \<rparr>"

text \<open>
  An operation in which the field \<open>r\<close> has the variants \<open>Success\<close> and \<open>Failure\<close>
  next to a field named \<open>r_Success\<close>; an operation and a fragment that are both named
  \<open>Hero\<close>.
\<close>

definition collisionOperation :: Operation where
  "collisionOperation =
     \<lparr> operationType = ''query'', operationName = ''Q'', variables = [],
       opSelectionSet = SelectionSet [tQuery]
         [FieldSelection (Field ''r'' None (GraphQLUnionType ''Result'') None (Some resultSelections)),
          FieldSelection (Field ''r_Success'' None (GraphQLObjectType ''Extra'') None
            (Some (SelectionSet [GraphQLObjectType ''Extra'']
               [FieldSelection (Field ''x'' None tString None None)])))],
       opFilePath = ''src/q.graphql'', operationId = None, opSource = [] \<rparr>"

definition collisionContext :: CompilerContext where
  "collisionContext =
     \<lparr> operations = [(''Q'', collisionOperation)], fragments = [],
       typesUsed = [], options = defaultOptions \<rparr>"

definition heroOperation :: Operation where
  "heroOperation =
     \<lparr> operationType = ''query'', operationName = ''Hero'', variables = [],
       opSelectionSet = SelectionSet [tQuery] [FieldSelection (Field ''id'' None tString None None)],
       opFilePath = ''src/hero.graphql'', operationId = None, opSource = [] \<rparr>"

definition heroFragment :: Fragment where
  "heroFragment =
     \<lparr> fragmentName = ''Hero'',
       fragSelectionSet = SelectionSet [GraphQLObjectType ''Character'']
         [FieldSelection (Field ''name'' None tString None None)],
       fragFilePath = ''src/heroFragment.graphql'' \<rparr>"

definition heroContext :: CompilerContext where
  "heroContext =
     \<lparr> operations = [(''Hero'', heroOperation)], fragments = [(''Hero'', heroFragment)],
       typesUsed = [], options = defaultOptions \<rparr>"

text \<open>
  Collaborators for running \<open>generate\<close>: the document is the number of input paths,
  validation rejects document 1, both compilers reject document 2, and the file system
  is the list of the directories that exist.
\<close>

definition demoGenerateDeps :: "(unit, nat, unit, string list) GenerateDeps" where
  "demoGenerateDeps =
     \<lparr> loadAndMergeQueryDocuments =
         (\<lambda>inputPaths tagName. if inputPaths = [] then Inl (Error ''No documents'')
                               else Inr (length inputPaths)),
       validateQueryDocument =
         (\<lambda>schema document. if document = 1 then Inl (Error ''Validation of GraphQL query document failed'')
                             else Inr ()),
       compileToIR =
         (\<lambda>schema document opts. if document = 2 then Inl (Error ''Cannot spread fragment'')
                                  else Inr (exampleContext\<lparr> options := opts \<rparr>)),
       compileToLegacyIR =
         (\<lambda>schema document opts. if document = 2 then Inl (Error ''Cannot spread fragment'')
                                  else Inr ()),
       serializeToJSON = (\<lambda>c. Inr ''{}''),
       generateSwiftSource =
         (\<lambda>c individual only. Inr \<lparr> swiftGeneratedFiles = [], swiftOutput = ''// swift'' \<rparr>),
       generateTypescriptLegacySource = (\<lambda>c. Inr ''// ts-legacy''),
       generateFlowLegacySource = (\<lambda>c. Inr ''// flow-legacy''),
       generateScalaSource = (\<lambda>c. Inr ''// scala''),
       generateFlowSource = (\<lambda>c. Inr ([], ''// flow'')),
       generateTypescriptSource =
         (\<lambda>c. Inr ([\<lparr> sourcePath = ''src/run.graphql'', fileName = ''Run.ts'',
                        content = ''export interface Run {}'' \<rparr>], ''// common'')),
       existsSync = (\<lambda>dirs path. path \<in> set dirs),
       isDirectory = (\<lambda>dirs path. path \<in> set dirs),
       mkdirSync = (\<lambda>path dirs. Inr (path # dirs)),
       writeFileSync = (\<lambda>path data dirs. Inr dirs),
       pathJoin = (\<lambda>a b. a @ ''/'' @ b),
       pathDirname = (\<lambda>p. ''src''),
       pathResolveDot = ''.'',
       jsonStringify = (\<lambda>m. ''{}'') \<rparr>"

definition demoState :: "string list GenerateState" where
  "demoState =
     \<lparr> fileSystem = [], calls = [],
       callerOptions = defaultOptions\<lparr> addTypename := Some False \<rparr>,
       writtenFiles = 0 \<rparr>"

text \<open>
  The variant of the root selection set of \<open>exampleOperation\<close>, and collaborators of
  \<open>generate\<close> whose Swift and TypeScript generators tell whether the context they
  receive was compiled with \<open>addTypename\<close>.
\<close>

definition rootVariant :: Variant where
  "rootVariant = Variant [tQuery] [FieldSelection resultField]"

definition demoSwiftDeps :: "(unit, nat, unit, string list) GenerateDeps" where
  "demoSwiftDeps =
     demoGenerateDeps
       \<lparr> generateSwiftSource :=
           (\<lambda>c individual only.
              Inr \<lparr> swiftGeneratedFiles = [],
                    swiftOutput = (if addTypename (options c) = Some True
                                   then ''// with __typename'' else ''// without __typename'') \<rparr>),
         generateTypescriptSource :=
           (\<lambda>c. Inr ([], if addTypename (options c) = Some True
                          then ''// with __typename'' else ''// without __typename'')) \<rparr>"

section \<open>Proofs: target inference\<close>

lemma js_split_ne: "js_split c s \<noteq> []"
  by (induction s) (auto split: list.splits)

lemma js_split_no_sep: "c \<notin> set e \<Longrightarrow> js_split c e = [e]"
  by (induction e) auto

lemma length_js_split: "length (js_split c s) = Suc (length (filter (\<lambda>x. x = c) s))"
  by (induction s) (auto split: list.splits simp: js_split_ne)

lemma last_js_split_append:
  "c \<notin> set e \<Longrightarrow> last (js_split c (p @ c # e)) = e"
proof (induction p)
  case Nil
  then show ?case by (simp add: js_split_no_sep)
next
  case (Cons x p)
  have len: "length (js_split c (p @ c # e)) \<ge> 2"
    by (simp add: length_js_split)
  then obtain y z zs where s: "js_split c (p @ c # e) = y # z # zs"
    by (cases "js_split c (p @ c # e)"; cases "tl (js_split c (p @ c # e))") auto
  with Cons show ?case by auto
qed

lemma js_first_rev: "xs \<noteq> [] \<Longrightarrow> js_first (rev xs) = Some (last xs)"
  by (cases xs rule: rev_cases) (auto simp: js_first_def)

lemma outputExtension_last:
  "outputExtension out = Some (last (js_split CHR ''.'' out))"
  unfolding outputExtension_def by (rule js_first_rev) (rule js_split_ne)

lemma outputExtension_suffix:
  "CHR ''.'' \<notin> set e \<Longrightarrow> outputExtension (p @ CHR ''.'' # e) = Some e"
  by (simp add: outputExtension_last last_js_split_append)

text \<open>
  C10.  With no (truthy) \<open>--target\<close> flag, the target is inferred from the last
  dot-separated segment of the output path, and only the exact segments \<open>json\<close>,
  \<open>swift\<close>, \<open>ts\<close>, \<open>js\<close> and \<open>scala\<close> are recognised.  An output path ending in
  \<open>.tsx\<close> or \<open>.jsx\<close> makes \<open>Generate.run\<close> raise "Could not infer target from output
  file type, please use --target": the case expressions \<open>"ts" || "tsx"\<close> and
  \<open>"js" || "jsx"\<close> are just \<open>"ts"\<close> and \<open>"js"\<close>.
\<close>

theorem infer_target_exact_extensions:
  assumes "\<not> js_truthy flags_target" and "out \<noteq> []"
  shows "js_or ''ts'' ''tsx'' = ''ts'' \<and> js_or ''js'' ''jsx'' = ''js''
       \<and> inferTarget flags_target (Some (p @ ''.tsx''))
           = Inl (CliError ''Could not infer target from output file type, please use --target'')
       \<and> inferTarget flags_target (Some (p @ ''.jsx''))
           = Inl (CliError ''Could not infer target from output file type, please use --target'')
       \<and> runChecks path_isAbsolute path_sep flags_target flags_outputFlat (Some (p @ ''.tsx''))
           = Inl (CliError ''Could not infer target from output file type, please use --target'')
       \<and> runChecks path_isAbsolute path_sep flags_target flags_outputFlat (Some (p @ ''.jsx''))
           = Inl (CliError ''Could not infer target from output file type, please use --target'')
       \<and> inferTarget flags_target (Some out)
           = (let ext = last (js_split CHR ''.'' out) in
              if ext = ''json'' then Inr ''json''
              else if ext = ''swift'' then Inr ''swift''
              else if ext = ''ts'' then Inr ''typescript''
              else if ext = ''js'' then Inr ''flow''
              else if ext = ''scala'' then Inr ''scala''
              else Inl (CliError ''Could not infer target from output file type, please use --target''))"
proof -
  have tsx: "outputExtension (p @ ''.tsx'') = Some ''tsx''"
    using outputExtension_suffix[of "''tsx''" p] by simp
  have jsx: "outputExtension (p @ ''.jsx'') = Some ''jsx''"
    using outputExtension_suffix[of "''jsx''" p] by simp
  have t: "js_truthy (Some (p @ ''.tsx''))" "js_truthy (Some (p @ ''.jsx''))"
    by (simp_all add: js_truthy_def)
  have a: "inferTarget flags_target (Some (p @ ''.tsx''))
           = Inl (CliError ''Could not infer target from output file type, please use --target'')"
    using assms(1) t tsx by (simp add: inferTarget_def inferFromExtension_def js_or_def)
  have b: "inferTarget flags_target (Some (p @ ''.jsx''))
           = Inl (CliError ''Could not infer target from output file type, please use --target'')"
    using assms(1) t jsx by (simp add: inferTarget_def inferFromExtension_def js_or_def)
  have c: "runChecks path_isAbsolute path_sep flags_target flags_outputFlat (Some (p @ ''.tsx''))
           = Inl (CliError ''Could not infer target from output file type, please use --target'')"
    unfolding runChecks_def a by simp
  have d: "runChecks path_isAbsolute path_sep flags_target flags_outputFlat (Some (p @ ''.jsx''))
           = Inl (CliError ''Could not infer target from output file type, please use --target'')"
    unfolding runChecks_def b by simp
  have e: "inferTarget flags_target (Some out)
           = (let ext = last (js_split CHR ''.'' out) in
              if ext = ''json'' then Inr ''json''
              else if ext = ''swift'' then Inr ''swift''
              else if ext = ''ts'' then Inr ''typescript''
              else if ext = ''js'' then Inr ''flow''
              else if ext = ''scala'' then Inr ''scala''
              else Inl (CliError ''Could not infer target from output file type, please use --target''))"
    using assms
    by (simp add: inferTarget_def inferFromExtension_def js_or_def js_truthy_def
        outputExtension_last Let_def)
  have f: "js_or ''ts'' ''tsx'' = ''ts'' \<and> js_or ''js'' ''jsx'' = ''js''"
    by (simp add: js_or_def)
  from a b c d e f show ?thesis by blast
qed

theorem infer_target_exact_extensions_witness:
  "\<not> js_truthy None \<and> ''gen/types.ts'' \<noteq> []
   \<and> inferTarget None (Some ''src/types.tsx'')
       = Inl (CliError ''Could not infer target from output file type, please use --target'')
   \<and> inferTarget None (Some ''src/types.jsx'')
       = Inl (CliError ''Could not infer target from output file type, please use --target'')
   \<and> inferTarget None (Some ''gen/types.ts'') = Inr ''typescript''"
proof -
  have h: "\<not> js_truthy None" "''gen/types.ts'' \<noteq> []"
    by (simp_all add: js_truthy_def)
  have l: "last (js_split CHR ''.'' ''gen/types.ts'') = ''ts''"
    by simp
  show ?thesis
    using h infer_target_exact_extensions [OF h, of "''src/types''" "\<lambda>_. False" "CHR ''/''" False]
    unfolding l by simp
qed

section \<open>Proofs: the scope stack of the emitter\<close>

lemma bindG_InrE:
  assumes "bindG m k = Some (Inr r)"
  obtains x g where "m = Some (Inr (x, g))" and "k x g = Some (Inr r)"
  using assms unfolding bindG_def
  by (cases m) (auto split: sum.splits prod.splits)

lemma bindG_Inr [simp]:
  "bindG (Some (Inr (x, g))) k = k x g"
  by (simp add: bindG_def)

lemma returnG_eq [simp]:
  "returnG x g = Some (Inr (y, g')) \<longleftrightarrow> x = y \<and> g = g'"
  by (auto simp: returnG_def)

lemma throwG_neq [simp]: "throwG e \<noteq> Some (Inr r)"
  by (simp add: throwG_def)

lemma preservesScopeD:
  "preservesScope f \<Longrightarrow> f x g = Some (Inr (y, g')) \<Longrightarrow> sameScope g g'"
  unfolding preservesScope_def by blast

lemma sameScope_refl: "sameScope g g"
  by (simp add: sameScope_def)

lemma sameScope_trans: "sameScope a b \<Longrightarrow> sameScope b c \<Longrightarrow> sameScope a c"
  by (simp add: sameScope_def)

lemma sameScope_enqueue: "sameScope g (enqueue p g)"
  by (simp add: sameScope_def enqueue_def)

lemma sameScope_enqueue_right: "sameScope g g' \<Longrightarrow> sameScope g (enqueue p g')"
  by (simp add: sameScope_def enqueue_def)

lemma push_pop:
  "sameScope (scopeStackPush n g) g' \<Longrightarrow> sameScope g (scopeStackPop g')"
  by (simp add: sameScope_def scopeStackPush_def scopeStackPop_def)

lemma mapG_ConsE:
  assumes "mapG f (x # xs) g = Some (Inr (ys, g'))"
  obtains y g1 zs where "f x g = Some (Inr (y, g1))" "mapG f xs g1 = Some (Inr (zs, g'))" "ys = y # zs"
proof -
  from assms have "bindG (f x g) (\<lambda>y g1. bindG (mapG f xs g1) (\<lambda>ys g2. returnG (y # ys) g2))
      = Some (Inr (ys, g'))" by simp
  then obtain y g1 where 1: "f x g = Some (Inr (y, g1))"
    and 2: "bindG (mapG f xs g1) (\<lambda>ys g2. returnG (y # ys) g2) = Some (Inr (ys, g'))"
    by (rule bindG_InrE)
  from 2 obtain zs g2 where 3: "mapG f xs g1 = Some (Inr (zs, g2))"
    and 4: "returnG (y # zs) g2 = Some (Inr (ys, g'))"
    by (rule bindG_InrE)
  from 4 have "ys = y # zs" "g2 = g'" by simp_all
  with 1 3 that show ?thesis by blast
qed

lemma mapG_preservesScope:
  assumes "preservesScope f"
  shows "preservesScope (mapG f)"
proof -
  have "mapG f xs g = Some (Inr (ys, g')) \<Longrightarrow> sameScope g g'" for xs g ys g'
  proof (induction xs arbitrary: g ys)
    case Nil
    then show ?case by (simp add: sameScope_refl)
  next
    case (Cons x xs)
    from Cons.prems obtain y g1 zs where
      fx: "f x g = Some (Inr (y, g1))" and rest: "mapG f xs g1 = Some (Inr (zs, g'))"
      by (rule mapG_ConsE)
    from preservesScopeD[OF assms fx] Cons.IH[OF rest] show ?case
      by (rule sameScope_trans)
  qed
  then show ?thesis unfolding preservesScope_def by blast
qed

lemma variantInterface_preservesScope:
  assumes gp: "preservesScope getProperties"
  shows "preservesScope (variantInterface getProperties D)"
  unfolding preservesScope_def
proof (intro allI impI)
  fix variant g n g'
  assume r: "variantInterface getProperties D variant g = Some (Inr (n, g'))"
  then obtain t where t: "js_first (variantPossibleTypes variant) = Some t"
    unfolding variantInterface_def by (cases "js_first (variantPossibleTypes variant)") auto
  from r t obtain ps g1 where
    p: "getProperties (Some variant) (scopeStackPush (typeToString t) g) = Some (Inr (ps, g1))"
    and g': "g' = scopeStackPop (enqueue (Node (ExportDeclaration
               (InterfaceDeclaration (nameFromScopeStack D (scopeStack g1)) ps False))) g1)"
    unfolding variantInterface_def by (auto elim!: bindG_InrE simp: Let_def)
  have "sameScope (scopeStackPush (typeToString t) g) g1"
    using preservesScopeD[OF gp p] .
  then show "sameScope g g'" unfolding g'
    by (intro push_pop sameScope_enqueue_right)
qed

lemma handleFieldSelectionSetValue_preservesScope:
  assumes gp: "preservesScope getProperties"
  shows "preservesScope (handleFieldSelectionSetValue getProperties D ident)"
  unfolding preservesScope_def
proof (intro allI impI)
  fix field g p g'
  assume r: "handleFieldSelectionSetValue getProperties D ident field g = Some (Inr (p, g'))"
  then obtain ss where ss: "fieldSelectionSet field = Some ss"
    unfolding handleFieldSelectionSetValue_def by (cases "fieldSelectionSet field") auto
  let ?vs = "exhaustiveVariants (getTypeCasesForSelectionSet D g ss)"
  show "sameScope g g'"
  proof (cases "length ?vs = 1")
    case True
    with r ss obtain ps g1 where
      p: "getProperties (js_first ?vs) g = Some (Inr (ps, g1))"
      and g': "g' = enqueue (Node (ExportDeclaration
                 (InterfaceDeclaration (nameFromScopeStack D (scopeStack g1)) ps False))) g1"
      unfolding handleFieldSelectionSetValue_def by (auto elim!: bindG_InrE simp: Let_def)
    show ?thesis unfolding g'
      using preservesScopeD[OF gp p] by (rule sameScope_enqueue_right)
  next
    case False
    with r ss obtain ids g1 where
      m: "mapG (variantInterface getProperties D) ?vs g = Some (Inr (ids, g1))"
      and g': "g' = enqueue (Node (ExportDeclaration
                 (TypeAliasGenericUnion ident (map TSTypeReference ids)))) g1"
      unfolding handleFieldSelectionSetValue_def by (auto elim!: bindG_InrE simp: Let_def)
    have "sameScope g g1"
      using preservesScopeD[OF mapG_preservesScope[OF variantInterface_preservesScope[OF gp]] m] .
    then show ?thesis unfolding g' by (rule sameScope_enqueue_right)
  qed
qed

lemma propertyForField_preservesScope:
  assumes gp: "preservesScope getProperties"
  shows "preservesScope (propertyForField getProperties D variant)"
  unfolding preservesScope_def
proof (intro allI impI)
  fix field g p g'
  assume r: "propertyForField getProperties D variant field g = Some (Inr (p, g'))"
  let ?n = "case fieldAlias field of None \<Rightarrow> fieldName field | Some a \<Rightarrow> a"
  let ?g1 = "scopeStackPush ?n g"
  from r obtain g2 where
    b: "(if fieldSelectionSet field \<noteq> None then
           handleFieldSelectionSetValue getProperties D (nameFromScopeStack D (scopeStack ?g1)) field ?g1
         else returnG (handleFieldValue field variant) ?g1) = Some (Inr (p, g2))"
    and g': "g' = scopeStackPop g2"
    unfolding propertyForField_def Let_def by (elim bindG_InrE) auto
  have "sameScope ?g1 g2"
  proof (cases "fieldSelectionSet field \<noteq> None")
    case True
    with b show ?thesis
      using preservesScopeD[OF handleFieldSelectionSetValue_preservesScope[OF gp]] by simp
  next
    case False
    with b show ?thesis by (auto simp: sameScope_refl)
  qed
  then show "sameScope g g'" unfolding g' by (rule push_pop)
qed

lemma getPropertiesForVariant_preservesScope:
  "preservesScope (getPropertiesForVariant fuel D)"
proof (induction fuel)
  case 0
  then show ?case by (simp add: preservesScope_def)
next
  case (Suc fuel)
  show ?case unfolding preservesScope_def
  proof (intro allI impI)
    fix variant g ps g'
    assume r: "getPropertiesForVariant (Suc fuel) D variant g = Some (Inr (ps, g'))"
    then obtain v where v: "variant = Some v"
      by (cases variant) auto
    from r v have
      m: "mapG (propertyForField (getPropertiesForVariant fuel D) D v)
            (collectAndMergeFields D v (mergeInFieldsFromFragmentSpreads (options (genContext g)))) g
          = Some (Inr (ps, g'))"
      by simp
    show "sameScope g g'"
      using preservesScopeD[OF mapG_preservesScope[OF propertyForField_preservesScope[OF Suc.IH]] m] .
  qed
qed

lemma sameScope_variablesInterface: "sameScope g (variablesInterface operation g)"
  unfolding variablesInterface_def Let_def
  by (auto intro!: push_pop sameScope_enqueue_right sameScope_refl)

lemma interfacesForOperation_sameScope:
  assumes "interfacesForOperation fuel D operation g = Some (Inr (u, g'))"
  shows "sameScope g g'"
proof -
  let ?g1 = "scopeStackPush (operationName operation) g"
  let ?g2 = "enqueue (operationComment operation) ?g1"
  from assms obtain ps g3 where
    p: "getPropertiesForVariant fuel D
          (js_first (getVariantsForSelectionSet D ?g2 (opSelectionSet operation))) ?g2
        = Some (Inr (ps, g3))"
    and g': "g' = variablesInterface operation (scopeStackPop (enqueue (Node (ExportDeclaration
              (InterfaceDeclaration (operationName operation) ps False))) g3))"
    unfolding interfacesForOperation_def Let_def by (elim bindG_InrE) auto
  have "sameScope ?g2 g3"
    using preservesScopeD[OF getPropertiesForVariant_preservesScope p] .
  then have "sameScope ?g1 g3"
    using sameScope_enqueue sameScope_trans by blast
  then have "sameScope g (scopeStackPop (enqueue (Node (ExportDeclaration
              (InterfaceDeclaration (operationName operation) ps False))) g3))"
    by (intro push_pop sameScope_enqueue_right)
  then show ?thesis unfolding g'
    using sameScope_variablesInterface sameScope_trans by blast
qed

lemma interfacesForFragment_sameScope:
  assumes "interfacesForFragment fuel D fragment g = Some (Inr (u, g'))"
  shows "sameScope g g'"
proof -
  let ?g1 = "scopeStackPush (fragmentName fragment) g"
  let ?g2 = "enqueue (fragmentComment fragment) ?g1"
  let ?vs = "getVariantsForSelectionSet D ?g2 (fragSelectionSet fragment)"
  have 12: "sameScope ?g1 ?g2" by (rule sameScope_enqueue)
  show ?thesis
  proof (cases "length ?vs = 1")
    case True
    with assms obtain ps g3 d where
      p: "getPropertiesForVariant fuel D (js_first ?vs) ?g2 = Some (Inr (ps, g3))"
      and g': "g' = scopeStackPop (enqueue d g3)"
      unfolding interfacesForFragment_def Let_def by (auto elim!: bindG_InrE)
    have "sameScope ?g2 g3"
      using preservesScopeD[OF getPropertiesForVariant_preservesScope p] .
    with 12 have "sameScope ?g1 g3" by (rule sameScope_trans)
    then show ?thesis unfolding g' by (intro push_pop sameScope_enqueue_right)
  next
    case False
    with assms obtain ms g3 d where
      m: "mapG (variantInterface (getPropertiesForVariant fuel D) D) ?vs ?g2 = Some (Inr (ms, g3))"
      and g': "g' = scopeStackPop (enqueue d g3)"
      unfolding interfacesForFragment_def Let_def by (auto elim!: bindG_InrE)
    have "sameScope ?g2 g3"
      using preservesScopeD[OF mapG_preservesScope[OF variantInterface_preservesScope[OF getPropertiesForVariant_preservesScope]] m] .
    with 12 have "sameScope ?g1 g3" by (rule sameScope_trans)
    then show ?thesis unfolding g' by (intro push_pop sameScope_enqueue_right)
  qed
qed

lemma returnedD: "returned r \<Longrightarrow> \<exists>x g'. r = Some (Inr (x, g'))"
  by (auto simp: returned_def split: option.splits sum.splits)

text \<open>
  C4.  The naming scope stack obeys strict push/pop nesting: whenever
  \<open>interfacesForOperation\<close> or \<open>interfacesForFragment\<close> returns, the scope stack is
  what it was on entry, and so it is after every return of \<open>getPropertiesForVariant\<close>
  and of \<open>handleFieldSelectionSetValue\<close>, whatever the two visitors of the core compute.
\<close>

theorem scope_stack_restored:
  "(interfacesForOperation fuel D operation g = Some (Inr (u, g')) \<longrightarrow> scopeStack g' = scopeStack g)
 \<and> (interfacesForFragment fuel D fragment g = Some (Inr (u, g')) \<longrightarrow> scopeStack g' = scopeStack g)
 \<and> (getPropertiesForVariant fuel D variant g = Some (Inr (ps, g')) \<longrightarrow> scopeStack g' = scopeStack g)
 \<and> (handleFieldSelectionSetValue (getPropertiesForVariant fuel D) D ident field g = Some (Inr (p, g'))
       \<longrightarrow> scopeStack g' = scopeStack g)"
proof (intro conjI impI)
  assume "interfacesForOperation fuel D operation g = Some (Inr (u, g'))"
  then have "sameScope g g'"
    by (rule interfacesForOperation_sameScope)
  then show "scopeStack g' = scopeStack g"
    by (simp add: sameScope_def)
next
  assume "interfacesForFragment fuel D fragment g = Some (Inr (u, g'))"
  then have "sameScope g g'"
    by (rule interfacesForFragment_sameScope)
  then show "scopeStack g' = scopeStack g"
    by (simp add: sameScope_def)
next
  assume "getPropertiesForVariant fuel D variant g = Some (Inr (ps, g'))"
  then have "sameScope g g'"
    by (rule preservesScopeD[OF getPropertiesForVariant_preservesScope])
  then show "scopeStack g' = scopeStack g"
    by (simp add: sameScope_def)
next
  assume "handleFieldSelectionSetValue (getPropertiesForVariant fuel D) D ident field g
            = Some (Inr (p, g'))"
  then have "sameScope g g'"
    by (rule preservesScopeD[OF handleFieldSelectionSetValue_preservesScope[OF
          getPropertiesForVariant_preservesScope]])
  then show "scopeStack g' = scopeStack g"
    by (simp add: sameScope_def)
qed

lemma example_operation_returns: "returned (interfacesForOperation 3 exampleDeps exampleOperation outerGenerator)"
  by code_simp
lemma example_fragment_returns: "returned (interfacesForFragment 3 exampleDeps exampleFragment outerGenerator)"
  by code_simp
lemma example_properties_return: "returned (getPropertiesForVariant 3 exampleDeps
     (js_first (variantsFor (opSelectionSet exampleOperation))) outerGenerator)"
  by code_simp
lemma example_field_returns: "returned (handleFieldSelectionSetValue (getPropertiesForVariant 3 exampleDeps) exampleDeps
     ''Outer_result'' resultField outerGenerator)"
  by code_simp

theorem scope_stack_restored_witness:
  "(\<exists>g'. interfacesForOperation 3 exampleDeps exampleOperation outerGenerator = Some (Inr ((), g'))
         \<and> scopeStack g' = [''Outer''])
 \<and> (\<exists>g'. interfacesForFragment 3 exampleDeps exampleFragment outerGenerator = Some (Inr ((), g'))
         \<and> scopeStack g' = [''Outer''])
 \<and> (\<exists>ps g'. getPropertiesForVariant 3 exampleDeps
         (js_first (variantsFor (opSelectionSet exampleOperation))) outerGenerator = Some (Inr (ps, g'))
         \<and> scopeStack g' = [''Outer''])
 \<and> (\<exists>p g'. handleFieldSelectionSetValue (getPropertiesForVariant 3 exampleDeps) exampleDeps
         ''Outer_result'' resultField outerGenerator = Some (Inr (p, g'))
         \<and> scopeStack g' = [''Outer''])"
proof -
  have s: "scopeStack outerGenerator = [''Outer'']"
    by (simp add: outerGenerator_def scopeStackPush_def newGenerator_def)
  from returnedD[OF example_operation_returns] obtain u1 g1 where
    1: "interfacesForOperation 3 exampleDeps exampleOperation outerGenerator = Some (Inr (u1, g1))"
    by blast
  from returnedD[OF example_fragment_returns] obtain u2 g2 where
    2: "interfacesForFragment 3 exampleDeps exampleFragment outerGenerator = Some (Inr (u2, g2))"
    by blast
  from returnedD[OF example_properties_return] obtain ps g3 where
    3: "getPropertiesForVariant 3 exampleDeps
         (js_first (variantsFor (opSelectionSet exampleOperation))) outerGenerator = Some (Inr (ps, g3))"
    by blast
  from returnedD[OF example_field_returns] obtain p g4 where
    4: "handleFieldSelectionSetValue (getPropertiesForVariant 3 exampleDeps) exampleDeps
         ''Outer_result'' resultField outerGenerator = Some (Inr (p, g4))"
    by blast
  have "scopeStack g1 = [''Outer'']"
    using scope_stack_restored[of 3 exampleDeps exampleOperation outerGenerator u1 g1] 1 s by simp
  moreover have "scopeStack g2 = [''Outer'']"
    using scope_stack_restored[of 3 exampleDeps _ outerGenerator u2 g2 exampleFragment] 2 s by simp
  moreover have "scopeStack g3 = [''Outer'']"
    using scope_stack_restored[of 3 exampleDeps _ outerGenerator _ g3 _
        "js_first (variantsFor (opSelectionSet exampleOperation))" ps] 3 s by simp
  moreover have "scopeStack g4 = [''Outer'']"
    using scope_stack_restored[of 3 exampleDeps _ outerGenerator _ g4 _ _ _ "''Outer_result''" resultField p]
      4 s by simp
  ultimately show ?thesis using 1 2 3 4 by simp
qed

section \<open>Proofs: outcomes do not depend on the fuel\<close>

lemma refinesD: "refines f f' \<Longrightarrow> f x g = Some r \<Longrightarrow> f' x g = Some r"
  unfolding refines_def by blast

lemma bindG_Some_mono:
  assumes b: "bindG m k = Some r"
    and m: "\<And>r0. m = Some r0 \<Longrightarrow> m' = Some r0"
    and k: "\<And>x g. k x g = Some r \<Longrightarrow> k' x g = Some r"
  shows "bindG m' k' = Some r"
proof (cases m)
  case None
  with b show ?thesis by (simp add: bindG_def)
next
  case (Some r0)
  from m[OF Some] have m': "m' = Some r0" .
  show ?thesis
  proof (cases r0)
    case (Inl e)
    with b Some m' show ?thesis by (simp add: bindG_def)
  next
    case (Inr xg)
    obtain x g where "xg = (x, g)" by (cases xg)
    with b Some m' Inr k show ?thesis by (simp add: bindG_def)
  qed
qed

lemma mapG_mono:
  assumes f: "refines f f'"
  shows "mapG f xs g = Some r \<Longrightarrow> mapG f' xs g = Some r"
proof (induction xs arbitrary: g r)
  case Nil
  then show ?case by simp
next
  case (Cons x xs)
  from Cons.prems have
    b: "bindG (f x g) (\<lambda>y g1. bindG (mapG f xs g1) (\<lambda>ys g2. returnG (y # ys) g2)) = Some r"
    by simp
  have "bindG (f' x g) (\<lambda>y g1. bindG (mapG f' xs g1) (\<lambda>ys g2. returnG (y # ys) g2)) = Some r"
  proof (rule bindG_Some_mono[OF b])
    fix r0 assume "f x g = Some r0"
    then show "f' x g = Some r0" by (rule refinesD[OF f])
  next
    fix y g1
    assume i: "bindG (mapG f xs g1) (\<lambda>ys g2. returnG (y # ys) g2) = Some r"
    show "bindG (mapG f' xs g1) (\<lambda>ys g2. returnG (y # ys) g2) = Some r"
      by (rule bindG_Some_mono[OF i]) (auto intro: Cons.IH)
  qed
  then show ?case by simp
qed

lemma refines_mapG: "refines f f' \<Longrightarrow> refines (mapG f) (mapG f')"
  unfolding refines_def using mapG_mono[unfolded refines_def] by blast

lemma refines_variantInterface:
  assumes gp: "refines gp gp'"
  shows "refines (variantInterface gp D) (variantInterface gp' D)"
  unfolding refines_def
proof (intro allI impI)
  fix v g r
  assume a: "variantInterface gp D v g = Some r"
  show "variantInterface gp' D v g = Some r"
  proof (cases "js_first (variantPossibleTypes v)")
    case None
    with a show ?thesis by (simp add: variantInterface_def)
  next
    case (Some t)
    with a have b: "bindG (gp (Some v) (scopeStackPush (typeToString t) g))
            (\<lambda>properties g1.
               let identifierName = nameFromScopeStack D (scopeStack g1);
                   g2 = enqueue (Node (ExportDeclaration
                          (InterfaceDeclaration identifierName properties False))) g1
               in returnG identifierName (scopeStackPop g2)) = Some r"
      by (simp add: variantInterface_def)
    have "bindG (gp' (Some v) (scopeStackPush (typeToString t) g))
            (\<lambda>properties g1.
               let identifierName = nameFromScopeStack D (scopeStack g1);
                   g2 = enqueue (Node (ExportDeclaration
                          (InterfaceDeclaration identifierName properties False))) g1
               in returnG identifierName (scopeStackPop g2)) = Some r"
      by (rule bindG_Some_mono[OF b]) (auto intro: refinesD[OF gp])
    with Some show ?thesis by (simp add: variantInterface_def)
  qed
qed

lemma refines_handleFieldSelectionSetValue:
  assumes gp: "refines gp gp'"
  shows "refines (handleFieldSelectionSetValue gp D ident) (handleFieldSelectionSetValue gp' D ident)"
  unfolding refines_def
proof (intro allI impI)
  fix field g r
  assume a: "handleFieldSelectionSetValue gp D ident field g = Some r"
  show "handleFieldSelectionSetValue gp' D ident field g = Some r"
  proof (cases "fieldSelectionSet field")
    case None
    with a show ?thesis by (simp add: handleFieldSelectionSetValue_def)
  next
    case (Some ss)
    let ?vs = "exhaustiveVariants (getTypeCasesForSelectionSet D g ss)"
    show ?thesis
    proof (cases "length ?vs = 1")
      case True
      with a Some have b: "bindG (gp (js_first ?vs) g)
                  (\<lambda>properties g1.
                     returnG \<lparr> propName = aliasOrName field,
                          propDescription = fieldDescription field,
                          propType = TypeFromGraphQLType (fieldType field) (Some ident) \<rparr>
                       (enqueue (Node (ExportDeclaration
                          (InterfaceDeclaration (nameFromScopeStack D (scopeStack g1))
                             properties False))) g1)) = Some r"
        by (simp add: handleFieldSelectionSetValue_def Let_def)
      have "bindG (gp' (js_first ?vs) g)
                  (\<lambda>properties g1.
                     returnG \<lparr> propName = aliasOrName field,
                          propDescription = fieldDescription field,
                          propType = TypeFromGraphQLType (fieldType field) (Some ident) \<rparr>
                       (enqueue (Node (ExportDeclaration
                          (InterfaceDeclaration (nameFromScopeStack D (scopeStack g1))
                             properties False))) g1)) = Some r"
        by (rule bindG_Some_mono[OF b]) (auto intro: refinesD[OF gp])
      with True Some show ?thesis by (simp add: handleFieldSelectionSetValue_def Let_def)
    next
      case False
      with a Some have b: "bindG (mapG (variantInterface gp D) ?vs g)
                  (\<lambda>identifiers g1.
                     returnG \<lparr> propName = aliasOrName field,
                          propDescription = fieldDescription field,
                          propType = TypeFromGraphQLType (fieldType field) (Some ident) \<rparr>
                       (enqueue (Node (ExportDeclaration
                          (TypeAliasGenericUnion ident
                             (map TSTypeReference identifiers)))) g1)) = Some r"
        by (simp add: handleFieldSelectionSetValue_def Let_def)
      have "bindG (mapG (variantInterface gp' D) ?vs g)
                  (\<lambda>identifiers g1.
                     returnG \<lparr> propName = aliasOrName field,
                          propDescription = fieldDescription field,
                          propType = TypeFromGraphQLType (fieldType field) (Some ident) \<rparr>
                       (enqueue (Node (ExportDeclaration
                          (TypeAliasGenericUnion ident
                             (map TSTypeReference identifiers)))) g1)) = Some r"
        by (rule bindG_Some_mono[OF b])
          (auto intro: mapG_mono[OF refines_variantInterface[OF gp]])
      with False Some show ?thesis by (simp add: handleFieldSelectionSetValue_def Let_def)
    qed
  qed
qed

lemma refines_propertyForField:
  assumes gp: "refines gp gp'"
  shows "refines (propertyForField gp D v) (propertyForField gp' D v)"
  unfolding refines_def
proof (intro allI impI)
  fix field g r
  assume a: "propertyForField gp D v field g = Some r"
  show "propertyForField gp' D v field g = Some r"
    unfolding propertyForField_def Let_def
    by (rule bindG_Some_mono[OF a[unfolded propertyForField_def Let_def]])
      (auto intro: refinesD[OF refines_handleFieldSelectionSetValue[OF gp]])
qed

lemma getPropertiesForVariant_Suc_Some:
  "getPropertiesForVariant (Suc fuel) D (Some v) g
     = mapG (propertyForField (getPropertiesForVariant fuel D) D v)
         (collectAndMergeFields D v (mergeInFieldsFromFragmentSpreads (options (genContext g)))) g"
  by simp

lemma getPropertiesForVariant_Suc_None:
  "getPropertiesForVariant (Suc fuel) D None g
     = throwG (TypeError ''Cannot read property selections of undefined'')"
  by simp

lemma refines_getPropertiesForVariant_Suc:
  "refines (getPropertiesForVariant fuel D) (getPropertiesForVariant (Suc fuel) D)"
proof (induction fuel)
  case 0
  show ?case by (simp add: refines_def)
next
  case (Suc fuel)
  show ?case unfolding refines_def
  proof (intro allI impI)
    fix variant g r
    assume a: "getPropertiesForVariant (Suc fuel) D variant g = Some r"
    show "getPropertiesForVariant (Suc (Suc fuel)) D variant g = Some r"
    proof (cases variant)
      case None
      with a show ?thesis
        by (simp only: getPropertiesForVariant_Suc_None)
    next
      case (Some v)
      with a have "mapG (propertyForField (getPropertiesForVariant fuel D) D v)
            (collectAndMergeFields D v (mergeInFieldsFromFragmentSpreads (options (genContext g)))) g
          = Some r"
        by (simp only: getPropertiesForVariant_Suc_Some)
      from mapG_mono[OF refines_propertyForField[OF Suc.IH] this]
      show ?thesis
        by (simp only: Some getPropertiesForVariant_Suc_Some)
    qed
  qed
qed

lemma refines_getPropertiesForVariant:
  "n \<le> m \<Longrightarrow> refines (getPropertiesForVariant n D) (getPropertiesForVariant m D)"
proof (induction m)
  case 0
  then show ?case by (simp add: refines_def)
next
  case (Suc m)
  show ?case
  proof (cases "n = Suc m")
    case True
    then show ?thesis by (simp add: refines_def)
  next
    case False
    with Suc.prems have "n \<le> m" by simp
    from Suc.IH[OF this] refines_getPropertiesForVariant_Suc[of m D]
    show ?thesis unfolding refines_def by blast
  qed
qed

lemma interfacesForOperation_mono:
  assumes nm: "n \<le> m" and a: "interfacesForOperation n D operation g = Some r"
  shows "interfacesForOperation m D operation g = Some r"
  unfolding interfacesForOperation_def Let_def
  by (rule bindG_Some_mono[OF a[unfolded interfacesForOperation_def Let_def]])
    (auto intro: refinesD[OF refines_getPropertiesForVariant[OF nm]])

lemma interfacesForFragment_mono:
  assumes nm: "n \<le> m" and a: "interfacesForFragment n D fragment g = Some r"
  shows "interfacesForFragment m D fragment g = Some r"
proof -
  let ?g2 = "enqueue (fragmentComment fragment) (scopeStackPush (fragmentName fragment) g)"
  let ?vs = "getVariantsForSelectionSet D ?g2 (fragSelectionSet fragment)"
  note gp = refines_getPropertiesForVariant[OF nm, of D]
  show ?thesis
  proof (cases "length ?vs = 1")
    case True
    with a have b: "bindG (getPropertiesForVariant n D (js_first ?vs) ?g2)
             (\<lambda>properties g3.
                let name = nameFromScopeStack D (scopeStack g3);
                    g4 = enqueue (Node (ExportDeclaration
                           (InterfaceDeclaration name properties False))) g3
                in returnG () (scopeStackPop g4)) = Some r"
      by (simp add: interfacesForFragment_def Let_def)
    have "bindG (getPropertiesForVariant m D (js_first ?vs) ?g2)
             (\<lambda>properties g3.
                let name = nameFromScopeStack D (scopeStack g3);
                    g4 = enqueue (Node (ExportDeclaration
                           (InterfaceDeclaration name properties False))) g3
                in returnG () (scopeStackPop g4)) = Some r"
      by (rule bindG_Some_mono[OF b]) (auto intro: refinesD[OF gp])
    with True show ?thesis by (simp add: interfacesForFragment_def Let_def)
  next
    case False
    with a have b: "bindG (mapG (variantInterface (getPropertiesForVariant n D) D) ?vs ?g2)
             (\<lambda>unionMembers g3.
                let g4 = enqueue (Node (ExportDeclaration
                           (TypeAliasGenericUnion (nameFromScopeStack D (scopeStack g3))
                              (map TSTypeReference unionMembers)))) g3
                in returnG () (scopeStackPop g4)) = Some r"
      by (simp add: interfacesForFragment_def Let_def)
    have "bindG (mapG (variantInterface (getPropertiesForVariant m D) D) ?vs ?g2)
             (\<lambda>unionMembers g3.
                let g4 = enqueue (Node (ExportDeclaration
                           (TypeAliasGenericUnion (nameFromScopeStack D (scopeStack g3))
                              (map TSTypeReference unionMembers)))) g3
                in returnG () (scopeStackPop g4)) = Some r"
      by (rule bindG_Some_mono[OF b])
        (auto intro: mapG_mono[OF refines_variantInterface[OF gp]])
    with False show ?thesis by (simp add: interfacesForFragment_def Let_def)
  qed
qed

lemma refines_operationFile:
  assumes nm: "n \<le> m"
  shows "refines (operationFile n D) (operationFile m D)"
  unfolding refines_def
proof (intro allI impI)
  fix operation g r
  assume a: "operationFile n D operation g = Some r"
  show "operationFile m D operation g = Some r"
    unfolding operationFile_def
    by (rule bindG_Some_mono[OF a[unfolded operationFile_def]])
      (auto intro: interfacesForOperation_mono[OF nm])
qed

lemma refines_fragmentFile:
  assumes nm: "n \<le> m"
  shows "refines (fragmentFile n D) (fragmentFile m D)"
  unfolding refines_def
proof (intro allI impI)
  fix fragment g r
  assume a: "fragmentFile n D fragment g = Some r"
  show "fragmentFile m D fragment g = Some r"
    unfolding fragmentFile_def
    by (rule bindG_Some_mono[OF a[unfolded fragmentFile_def]])
      (auto intro: interfacesForFragment_mono[OF nm])
qed

text \<open>
  More fuel changes no outcome: what \<open>generateSource\<close> returns or throws with some fuel
  it returns or throws with any larger fuel, so the outcome of a run is independent of
  the fuel it was given.
\<close>

lemma generateSource_mono:
  assumes nm: "n \<le> m" and a: "generateSource n D ctx = Some r"
  shows "generateSource m D ctx = Some r"
proof -
  let ?b = "\<lambda>k. bindG (mapG (operationFile k D) (map snd (operations ctx)) (newGenerator ctx))
             (\<lambda>operationFiles g1.
                bindG (mapG (fragmentFile k D) (map snd (fragments ctx)) g1)
                  (\<lambda>fragmentFiles g2. returnG (operationFiles @ fragmentFiles) g2))"
  from a obtain r0 where n: "?b n = Some r0"
    by (cases "?b n") (auto simp: generateSource_def)
  have "?b m = Some r0"
  proof (rule bindG_Some_mono[OF n])
    fix r1 assume "mapG (operationFile n D) (map snd (operations ctx)) (newGenerator ctx) = Some r1"
    then show "mapG (operationFile m D) (map snd (operations ctx)) (newGenerator ctx) = Some r1"
      by (rule mapG_mono[OF refines_operationFile[OF nm]])
  next
    fix x g
    assume i: "bindG (mapG (fragmentFile n D) (map snd (fragments ctx)) g)
                  (\<lambda>fragmentFiles g2. returnG (x @ fragmentFiles) g2) = Some r0"
    show "bindG (mapG (fragmentFile m D) (map snd (fragments ctx)) g)
                  (\<lambda>fragmentFiles g2. returnG (x @ fragmentFiles) g2) = Some r0"
      by (rule bindG_Some_mono[OF i]) (auto intro: mapG_mono[OF refines_fragmentFile[OF nm]])
  qed
  with a n show ?thesis by (simp add: generateSource_def)
qed

lemma generateSource_fuel_independent:
  assumes "generateSource n D ctx = Some r" and "generateSource m D ctx = Some r'"
  shows "r = r'"
proof -
  from generateSource_mono[OF max.cobounded1 assms(1), of m]
       generateSource_mono[OF max.cobounded2 assms(2), of n]
  show ?thesis by simp
qed

section \<open>Proofs: evaluation on concrete inputs\<close>

lemmas emitter_defs =
  generateSource_def operationFile_def fragmentFile_def interfacesForFragment_def
  interfacesForOperation_def variablesInterface_def variantInterface_def
  handleFieldSelectionSetValue_def propertyForField_def handleFieldValue_def aliasOrName_def
  getVariantsForSelectionSet_def getTypeCasesForSelectionSet_def nameFromScopeStack_def
  scopeStackPush_def scopeStackPop_def enqueue_def printAndClear_def fileHeader_def
  printEnumsAndInputObjects_def newGenerator_def bindG_def returnG_def throwG_def js_first_def
  operationComment_def fragmentComment_def isEnumType_def isInputObjectType_def
  Let_def eval_nat_numeral

lemmas example_defs =
  exampleDeps_def exampleCollectFields_def variantsFor_def groupByKey_def
  exampleContext_def exampleFragment_def exampleOperation_def resultSelections_def
  defaultOptions_def tString_def tSuccess_def tFailure_def tQuery_def

section \<open>Proofs: the properties of a variant\<close>

lemma variantsFor_resultSelections:
  "variantsFor resultSelections = [successVariant, failureVariant]"
  by code_simp

lemma mapG_list_all2:
  "mapG f xs g = Some (Inr (ys, g')) \<Longrightarrow>
     list_all2 (\<lambda>x y. \<exists>g1 g2. f x g1 = Some (Inr (y, g2))) xs ys"
proof (induction xs arbitrary: g ys)
  case Nil
  then show ?case by simp
next
  case (Cons x xs)
  from Cons.prems obtain y g1 zs where
    fx: "f x g = Some (Inr (y, g1))" and rest: "mapG f xs g1 = Some (Inr (zs, g'))"
    and ys: "ys = y # zs"
    by (rule mapG_ConsE)
  from Cons.IH[OF rest] fx ys show ?case by auto
qed

lemma handleFieldSelectionSetValue_propName:
  assumes "handleFieldSelectionSetValue getProperties D ident field g = Some (Inr (p, g'))"
  shows "propName p = aliasOrName field"
proof -
  from assms obtain ss where ss: "fieldSelectionSet field = Some ss"
    unfolding handleFieldSelectionSetValue_def by (cases "fieldSelectionSet field") auto
  show ?thesis
    using assms ss unfolding handleFieldSelectionSetValue_def Let_def
    by (auto elim!: bindG_InrE split: if_splits)
qed

lemma propertyForField_result:
  assumes "propertyForField getProperties D variant field g = Some (Inr (p, g'))"
  shows "propName p = aliasOrName field"
    and "fieldSelectionSet field = None \<Longrightarrow> p = handleFieldValue field variant"
proof -
  let ?g1 = "scopeStackPush (case fieldAlias field of None \<Rightarrow> fieldName field | Some a \<Rightarrow> a) g"
  from assms obtain g2 where
    b: "(if fieldSelectionSet field \<noteq> None then
           handleFieldSelectionSetValue getProperties D (nameFromScopeStack D (scopeStack ?g1)) field ?g1
         else returnG (handleFieldValue field variant) ?g1) = Some (Inr (p, g2))"
    unfolding propertyForField_def Let_def by (elim bindG_InrE) auto
  show "propName p = aliasOrName field"
  proof (cases "fieldSelectionSet field \<noteq> None")
    case True
    with b show ?thesis using handleFieldSelectionSetValue_propName by simp
  next
    case False
    with b show ?thesis by (auto simp: handleFieldValue_def)
  qed
  show "fieldSelectionSet field = None \<Longrightarrow> p = handleFieldValue field variant"
    using b by auto
qed

lemma getPropertiesForVariant_pointwise:
  assumes "getPropertiesForVariant fuel D (Some variant) g = Some (Inr (ps, g'))"
  shows "list_all2 (\<lambda>field p. propName p = aliasOrName field
            \<and> (fieldSelectionSet field = None \<longrightarrow> p = handleFieldValue field variant))
          (collectAndMergeFields D variant (mergeInFieldsFromFragmentSpreads (options (genContext g))))
          ps"
proof (cases fuel)
  case 0
  with assms show ?thesis by simp
next
  case (Suc n)
  with assms have
    m: "mapG (propertyForField (getPropertiesForVariant n D) D variant)
          (collectAndMergeFields D variant (mergeInFieldsFromFragmentSpreads (options (genContext g)))) g
        = Some (Inr (ps, g'))"
    by simp
  show ?thesis
    by (rule list_all2_mono[OF mapG_list_all2[OF m]]) (auto dest: propertyForField_result)
qed

text \<open>
  C3.  A merged field named \<open>__typename\<close> without a selection set becomes a property
  whose type is the union of the string-literal types of the names of the variant's
  possible types: \<open>handleFieldValue\<close> builds that type, and every property that
  \<open>getPropertiesForVariant\<close> returns for such a field carries it.  In the union
  \<open>Success | Failure\<close> each variant's \<open>__typename\<close> is typed as the literal name of its
  own type.
\<close>

theorem typename_property_is_union_of_type_names:
  "(fieldName field = ''__typename'' \<longrightarrow>
      propType (handleFieldValue field variant)
        = TSUnionType (map (\<lambda>type. TSLiteralType (typeToString type)) (variantPossibleTypes variant)))
 \<and> (getPropertiesForVariant fuel D (Some variant) g = Some (Inr (ps, g')) \<longrightarrow>
      length ps = length (collectAndMergeFields D variant
                    (mergeInFieldsFromFragmentSpreads (options (genContext g))))
      \<and> (\<forall>i < length ps.
            fieldName (collectAndMergeFields D variant
                (mergeInFieldsFromFragmentSpreads (options (genContext g))) ! i) = ''__typename''
            \<and> fieldSelectionSet (collectAndMergeFields D variant
                (mergeInFieldsFromFragmentSpreads (options (genContext g))) ! i) = None
            \<longrightarrow> propType (ps ! i)
                  = TSUnionType (map (\<lambda>type. TSLiteralType (typeToString type))
                      (variantPossibleTypes variant))))"
proof (intro conjI impI allI)
  assume "fieldName field = ''__typename''"
  then show "propType (handleFieldValue field variant)
        = TSUnionType (map (\<lambda>type. TSLiteralType (typeToString type)) (variantPossibleTypes variant))"
    by (simp add: handleFieldValue_def)
next
  let ?fields = "collectAndMergeFields D variant
                    (mergeInFieldsFromFragmentSpreads (options (genContext g)))"
  assume r: "getPropertiesForVariant fuel D (Some variant) g = Some (Inr (ps, g'))"
  note pw = getPropertiesForVariant_pointwise[OF r]
  show "length ps = length ?fields"
    using pw by (simp add: list_all2_lengthD)
  fix i
  assume i: "i < length ps"
    and f: "fieldName (?fields ! i) = ''__typename'' \<and> fieldSelectionSet (?fields ! i) = None"
  from pw i have "fieldSelectionSet (?fields ! i) = None \<longrightarrow> ps ! i = handleFieldValue (?fields ! i) variant"
    by (simp add: list_all2_conv_all_nth)
  with f have "ps ! i = handleFieldValue (?fields ! i) variant" by simp
  with f show "propType (ps ! i)
         = TSUnionType (map (\<lambda>type. TSLiteralType (typeToString type)) (variantPossibleTypes variant))"
    by (simp add: handleFieldValue_def)
qed

lemma success_properties_return:
  "returned (getPropertiesForVariant 1 exampleDeps (Some successVariant) (newGenerator exampleContext))"
  by code_simp

lemma success_fields:
  "collectAndMergeFields exampleDeps successVariant
     (mergeInFieldsFromFragmentSpreads (options (genContext (newGenerator exampleContext))))
   = [Field ''__typename'' None (GraphQLNonNull tString) None None,
      Field ''value'' None tString None None]"
  by code_simp

lemma failure_properties_return:
  "returned (getPropertiesForVariant 1 exampleDeps (Some failureVariant) (newGenerator exampleContext))"
  by code_simp

lemma failure_fields:
  "collectAndMergeFields exampleDeps failureVariant
     (mergeInFieldsFromFragmentSpreads (options (genContext (newGenerator exampleContext))))
   = [Field ''__typename'' None (GraphQLNonNull tString) None None,
      Field ''message'' None tString None None]"
  by code_simp

theorem typename_property_is_union_of_type_names_witness:
  "variantsFor resultSelections = [successVariant, failureVariant]
 \<and> (\<exists>ps g'. getPropertiesForVariant 1 exampleDeps (Some successVariant) (newGenerator exampleContext)
               = Some (Inr (ps, g'))
        \<and> length ps = 2 \<and> propType (ps ! 0) = TSUnionType [TSLiteralType ''Success''])
 \<and> (\<exists>ps g'. getPropertiesForVariant 1 exampleDeps (Some failureVariant) (newGenerator exampleContext)
               = Some (Inr (ps, g'))
        \<and> length ps = 2 \<and> propType (ps ! 0) = TSUnionType [TSLiteralType ''Failure''])"
proof -
  from returnedD[OF success_properties_return] obtain ps1 g1 where
    1: "getPropertiesForVariant 1 exampleDeps (Some successVariant) (newGenerator exampleContext)
          = Some (Inr (ps1, g1))" by blast
  from returnedD[OF failure_properties_return] obtain ps2 g2 where
    2: "getPropertiesForVariant 1 exampleDeps (Some failureVariant) (newGenerator exampleContext)
          = Some (Inr (ps2, g2))" by blast
  have a: "length ps1 = 2 \<and> propType (ps1 ! 0) = TSUnionType [TSLiteralType ''Success'']"
    using typename_property_is_union_of_type_names[of "Field ''__typename'' None (GraphQLNonNull tString) None None"
        successVariant 1 exampleDeps "newGenerator exampleContext" ps1 g1] 1
    unfolding success_fields
    by (simp add: successVariant_def tSuccess_def)
  have b: "length ps2 = 2 \<and> propType (ps2 ! 0) = TSUnionType [TSLiteralType ''Failure'']"
    using typename_property_is_union_of_type_names[of "Field ''__typename'' None (GraphQLNonNull tString) None None"
        failureVariant 1 exampleDeps "newGenerator exampleContext" ps2 g2] 2
    unfolding failure_fields
    by (simp add: failureVariant_def tFailure_def)
  show ?thesis using variantsFor_resultSelections 1 2 a b by simp
qed

section \<open>Proofs: the interface of an operation\<close>

text \<open>
  C9.  \<open>interfacesForOperation\<close> builds the operation's interface from the first of the
  exhaustive variants of the root selection set only: when that list is \<open>v # vs\<close>, what
  the method does is determined by \<open>v\<close>, and \<open>vs\<close> does not occur in it.
\<close>

theorem operation_interface_from_first_variant:
  assumes "exhaustiveVariants (typeCaseForSelectionSet D (opSelectionSet operation)
             (mergeInFieldsFromFragmentSpreads (options (genContext g)))) = v # vs"
  shows "interfacesForOperation fuel D operation g =
           bindG (getPropertiesForVariant fuel D (Some v)
                    (enqueue (operationComment operation) (scopeStackPush (operationName operation) g)))
             (\<lambda>properties g3.
                returnG ()
                  (variablesInterface operation
                     (scopeStackPop
                        (enqueue (Node (ExportDeclaration
                           (InterfaceDeclaration (operationName operation) properties False))) g3))))"
proof -
  have "getVariantsForSelectionSet D
          (enqueue (operationComment operation) (scopeStackPush (operationName operation) g))
          (opSelectionSet operation) = v # vs"
    using assms
    by (simp add: getVariantsForSelectionSet_def getTypeCasesForSelectionSet_def
        enqueue_def scopeStackPush_def)
  then show ?thesis
    by (simp add: interfacesForOperation_def Let_def js_first_def)
qed

lemma two_variants:
  "exhaustiveVariants (typeCaseForSelectionSet exampleDeps (opSelectionSet twoVariantOperation)
     (mergeInFieldsFromFragmentSpreads (options (genContext (newGenerator exampleContext)))))
   = successVariant # [failureVariant]"
  by (simp add: twoVariantOperation_def successVariant_def failureVariant_def example_defs)

lemma two_variant_output:
  "bindG (getPropertiesForVariant 1 exampleDeps (Some successVariant)
            (enqueue (operationComment twoVariantOperation)
               (scopeStackPush (operationName twoVariantOperation) (newGenerator exampleContext))))
     (\<lambda>properties g3.
        returnG ()
          (variablesInterface twoVariantOperation
             (scopeStackPop
                (enqueue (Node (ExportDeclaration
                   (InterfaceDeclaration (operationName twoVariantOperation) properties False))) g3))))
   = Some (Inr ((),
       \<lparr> genContext = exampleContext,
         printer =
           [operationComment twoVariantOperation,
            Node (ExportDeclaration (InterfaceDeclaration ''Both''
              [\<lparr> propName = ''__typename'', propDescription = None,
                  propType = TSUnionType [TSLiteralType ''Success''] \<rparr>,
               \<lparr> propName = ''value'', propDescription = None,
                  propType = TypeFromGraphQLType tString None \<rparr>]
              False))],
         scopeStack = [] \<rparr>))"
  by (simp add: twoVariantOperation_def successVariant_def emitter_defs example_defs)

theorem operation_interface_from_first_variant_witness:
  "exhaustiveVariants (typeCaseForSelectionSet exampleDeps (opSelectionSet twoVariantOperation)
     (mergeInFieldsFromFragmentSpreads (options (genContext (newGenerator exampleContext)))))
   = successVariant # [failureVariant]
 \<and> interfacesForOperation 1 exampleDeps twoVariantOperation (newGenerator exampleContext)
   = Some (Inr ((),
       \<lparr> genContext = exampleContext,
         printer =
           [operationComment twoVariantOperation,
            Node (ExportDeclaration (InterfaceDeclaration ''Both''
              [\<lparr> propName = ''__typename'', propDescription = None,
                  propType = TSUnionType [TSLiteralType ''Success''] \<rparr>,
               \<lparr> propName = ''value'', propDescription = None,
                  propType = TypeFromGraphQLType tString None \<rparr>]
              False))],
         scopeStack = [] \<rparr>))"
  using operation_interface_from_first_variant[OF two_variants, of 1] two_variants two_variant_output
  by simp

section \<open>Proofs: the Variant Engine\<close>

lemma fst_insertByKey:
  "map fst (insertByKey key x gs)
     = (if key x \<in> fst ` set gs then map fst gs else map fst gs @ [key x])"
proof (induction gs)
  case Nil
  then show ?case by simp
next
  case (Cons g gs)
  obtain k ys where g: "g = (k, ys)" by (cases g)
  show ?case
  proof (cases "k = key x")
    case True
    with g show ?thesis by simp
  next
    case False
    with g Cons show ?thesis by auto
  qed
qed

lemma set_insertByKey:
  "(k, ys) \<in> set (insertByKey key x gs) \<Longrightarrow>
     (k, ys) \<in> set gs \<or> (k = key x \<and> (ys = [x] \<or> (\<exists>zs. (k, zs) \<in> set gs \<and> ys = zs @ [x])))"
  by (induction gs) (auto split: if_splits)

lemma mset_insertByKey:
  "mset (concat (map snd (insertByKey key x gs))) = mset (concat (map snd gs)) + {#x#}"
  by (induction gs) (auto split: prod.splits)

lemma groupsOk_insertByKey:
  assumes "groupsOk key gs"
  shows "groupsOk key (insertByKey key x gs)"
proof -
  have d: "distinct (map fst (insertByKey key x gs))"
    using assms by (auto simp: groupsOk_def fst_insertByKey)
  have "ys \<noteq> [] \<and> (\<forall>y \<in> set ys. key y = k)" if "(k, ys) \<in> set (insertByKey key x gs)" for k ys
  proof -
    from set_insertByKey[OF that] consider
      (old) "(k, ys) \<in> set gs"
      | (new) "k = key x" "ys = [x]"
      | (ext) zs where "k = key x" "(k, zs) \<in> set gs" "ys = zs @ [x]"
      by blast
    then show ?thesis
    proof cases
      case old
      with assms show ?thesis by (auto simp: groupsOk_def)
    next
      case new
      then show ?thesis by simp
    next
      case ext
      from assms ext(2) have "zs \<noteq> [] \<and> (\<forall>y \<in> set zs. key y = k)"
        by (auto simp: groupsOk_def)
      with ext show ?thesis by simp
    qed
  qed
  with d show ?thesis by (auto simp: groupsOk_def)
qed

lemma foldl_insertByKey:
  "groupsOk key gs \<Longrightarrow>
     groupsOk key (foldl (\<lambda>gs x. insertByKey key x gs) gs xs)
   \<and> mset (concat (map snd (foldl (\<lambda>gs x. insertByKey key x gs) gs xs)))
       = mset (concat (map snd gs)) + mset xs"
proof (induction xs arbitrary: gs)
  case Nil
  then show ?case by simp
next
  case (Cons x xs)
  from Cons.IH[OF groupsOk_insertByKey[OF Cons.prems]] show ?case
    by (simp add: mset_insertByKey)
qed

lemma groupByKey_ok: "groupsOk key (groupByKey key xs)"
  and mset_groupByKey: "mset (concat (map snd (groupByKey key xs))) = mset xs"
  using foldl_insertByKey[of key "[]" xs] by (simp_all add: groupByKey_def groupsOk_def)

lemma length_filter_fst_le_1:
  "distinct (map fst gs) \<Longrightarrow> length (filter (\<lambda>g. fst g = k) gs) \<le> 1"
proof (induction gs)
  case Nil
  then show ?case by simp
next
  case (Cons g gs)
  show ?case
  proof (cases "fst g = k")
    case True
    with Cons.prems have "k \<notin> fst ` set gs" by simp
    then have "filter (\<lambda>g. fst g = k) gs = []"
      unfolding filter_empty_conv by blast
    with True show ?thesis by simp
  next
    case False
    with Cons show ?thesis by simp
  qed
qed

lemma exactly_one_group:
  assumes ok: "groupsOk key gs"
  shows "length (filter (\<lambda>g. t \<in> set (snd g)) gs)
           = (if t \<in> set (concat (map snd gs)) then 1 else 0)"
proof (cases "t \<in> set (concat (map snd gs))")
  case False
  then have "filter (\<lambda>g. t \<in> set (snd g)) gs = []"
    by (auto simp: filter_empty_conv)
  with False show ?thesis by simp
next
  case True
  then have "filter (\<lambda>g. t \<in> set (snd g)) gs \<noteq> []"
    by (auto simp: filter_empty_conv)
  then have ge: "length (filter (\<lambda>g. t \<in> set (snd g)) gs) \<ge> 1"
    by (cases "filter (\<lambda>g. t \<in> set (snd g)) gs") auto
  have sub: "filter (\<lambda>g. t \<in> set (snd g)) gs
               = filter (\<lambda>g. t \<in> set (snd g)) (filter (\<lambda>g. fst g = key t) gs)"
    using ok by (auto simp: groupsOk_def intro!: filter_cong)
  have "length (filter (\<lambda>g. t \<in> set (snd g)) gs) \<le> length (filter (\<lambda>g. fst g = key t) gs)"
    by (subst sub) (rule length_filter_le)
  also have "\<dots> \<le> 1"
    using ok length_filter_fst_le_1[of gs "key t"] by (simp add: groupsOk_def)
  finally show ?thesis using ge True by simp
qed

lemma variantPossibleTypes_variantsFor:
  "map variantPossibleTypes (variantsFor ss)
     = map snd (groupByKey (\<lambda>t. applicableFields t ss) (possibleTypes ss))"
  by (simp add: variantsFor_def split_def comp_def)

text \<open>
  C2.  The variants computed for a selection set partition its possible types: taken
  together the variants hold exactly the possible types of the selection set (as a
  multiset, so none is lost or repeated, and as a set), every possible type belongs to
  exactly one variant and any other type to none, and no variant is empty.
\<close>

theorem variants_partition_possible_types:
  "mset (concat (map variantPossibleTypes (variantsFor ss))) = mset (possibleTypes ss)
 \<and> \<Union> (set (map (\<lambda>v. set (variantPossibleTypes v)) (variantsFor ss))) = set (possibleTypes ss)
 \<and> (\<forall>t. length (filter (\<lambda>v. t \<in> set (variantPossibleTypes v)) (variantsFor ss))
           = (if t \<in> set (possibleTypes ss) then 1 else 0))
 \<and> list_all (\<lambda>v. variantPossibleTypes v \<noteq> []) (variantsFor ss)"
proof -
  let ?key = "\<lambda>t. applicableFields t ss"
  let ?gs = "groupByKey ?key (possibleTypes ss)"
  have m: "mset (concat (map variantPossibleTypes (variantsFor ss))) = mset (possibleTypes ss)"
    by (simp only: variantPossibleTypes_variantsFor mset_groupByKey)
  have s: "set (concat (map snd ?gs)) = set (possibleTypes ss)"
    using mset_groupByKey[of ?key "possibleTypes ss"] by (rule mset_eq_setD)
  have "set (concat (map variantPossibleTypes (variantsFor ss))) = set (possibleTypes ss)"
    using m by (rule mset_eq_setD)
  then have u: "\<Union> (set (map (\<lambda>v. set (variantPossibleTypes v)) (variantsFor ss))) = set (possibleTypes ss)"
    by simp
  have f: "length (filter (\<lambda>v. t \<in> set (variantPossibleTypes v)) (variantsFor ss))
           = (if t \<in> set (possibleTypes ss) then 1 else 0)" for t
  proof -
    have "length (filter (\<lambda>v. t \<in> set (variantPossibleTypes v)) (variantsFor ss))
            = length (filter (\<lambda>g. t \<in> set (snd g)) ?gs)"
      by (simp add: variantsFor_def filter_map comp_def split_def)
    also have "\<dots> = (if t \<in> set (concat (map snd ?gs)) then 1 else 0)"
      by (rule exactly_one_group[OF groupByKey_ok])
    finally show ?thesis unfolding s .
  qed
  have n: "list_all (\<lambda>v. variantPossibleTypes v \<noteq> []) (variantsFor ss)"
    using groupByKey_ok[of ?key "possibleTypes ss"]
    by (auto simp: variantsFor_def list_all_iff groupsOk_def)
  from m u f n show ?thesis by blast
qed

theorem variants_partition_possible_types_witness:
  "variantsFor resultSelections = [successVariant, failureVariant]
 \<and> possibleTypes resultSelections = [tSuccess, tFailure]
 \<and> length (filter (\<lambda>v. tSuccess \<in> set (variantPossibleTypes v)) (variantsFor resultSelections)) = 1
 \<and> length (filter (\<lambda>v. tFailure \<in> set (variantPossibleTypes v)) (variantsFor resultSelections)) = 1
 \<and> length (filter (\<lambda>v. tQuery \<in> set (variantPossibleTypes v)) (variantsFor resultSelections)) = 0"
proof -
  have p: "possibleTypes resultSelections = [tSuccess, tFailure]"
    by (simp add: resultSelections_def)
  have q: "tQuery \<noteq> tSuccess" "tQuery \<noteq> tFailure"
    by (simp_all add: tQuery_def tSuccess_def tFailure_def)
  from variants_partition_possible_types[of resultSelections] p q
  show ?thesis using variantsFor_resultSelections by simp
qed

section \<open>Proofs: the emitter returns\<close>

text \<open>
  With decreasing visitors, fuel above the measure of a variant is enough: the emitter
  returns or throws, and it returns when no variant is empty.  The Variant Engine of the
  specification with the stand-in for \<open>collectAndMergeFields\<close> is decreasing for
  \<open>weightVariant\<close>.
\<close>

lemma mapG_not_None:
  assumes "\<And>x g. x \<in> set xs \<Longrightarrow> f x g \<noteq> None"
  shows "mapG f xs g \<noteq> None"
  using assms
proof (induction xs arbitrary: g)
  case Nil
  then show ?case by (simp add: returnG_def)
next
  case (Cons x xs)
  have fx: "f x g \<noteq> None" using Cons.prems by simp
  have rest: "mapG f xs g1 \<noteq> None" for g1 using Cons.IH Cons.prems by simp
  show ?case
  proof (cases "f x g")
    case None
    with fx show ?thesis by simp
  next
    case (Some r0)
    show ?thesis
    proof (cases r0)
      case (Inl e)
      with Some show ?thesis by (simp add: bindG_def)
    next
      case (Inr yg)
      obtain y g1 where yg: "yg = (y, g1)" by (cases yg)
      from rest[of g1] obtain r1 where r1: "mapG f xs g1 = Some r1" by auto
      show ?thesis
      proof (cases r1)
        case (Inl e)
        with Some Inr yg r1 show ?thesis by (simp add: bindG_def)
      next
        case (Inr zg)
        obtain zs g2 where "zg = (zs, g2)" by (cases zg)
        with Some \<open>r0 = Inr yg\<close> yg r1 Inr show ?thesis by (simp add: bindG_def returnG_def)
      qed
    qed
  qed
qed

lemma bindG_not_None:
  assumes "m \<noteq> None" and "\<And>x g. k x g \<noteq> None"
  shows "bindG m k \<noteq> None"
proof (cases m)
  case None
  with assms show ?thesis by simp
next
  case (Some r0)
  show ?thesis
  proof (cases r0)
    case (Inl e)
    with Some show ?thesis by (simp add: bindG_def)
  next
    case (Inr xg)
    obtain x g where "xg = (x, g)" by (cases xg)
    with Some Inr assms(2)[of x g] show ?thesis by (simp add: bindG_def)
  qed
qed

lemma js_first_in_set: "js_first xs = Some x \<Longrightarrow> x \<in> set xs"
  by (cases xs) (auto simp: js_first_def)

lemma length_1_js_first: "length xs = 1 \<Longrightarrow> \<exists>x. js_first xs = Some x"
  by (cases xs) (auto simp: js_first_def)

lemma variantInterface_not_None:
  assumes "\<And>g. gp (Some v) g \<noteq> None"
  shows "variantInterface gp D v g \<noteq> None"
proof (cases "js_first (variantPossibleTypes v)")
  case None
  then show ?thesis by (simp add: variantInterface_def throwG_def)
next
  case (Some t)
  have "bindG (gp (Some v) (scopeStackPush (typeToString t) g))
            (\<lambda>properties g1.
               let identifierName = nameFromScopeStack D (scopeStack g1);
                   g2 = enqueue (Node (ExportDeclaration
                          (InterfaceDeclaration identifierName properties False))) g1
               in returnG identifierName (scopeStackPop g2)) \<noteq> None"
    by (rule bindG_not_None[OF assms]) (simp add: Let_def returnG_def)
  with Some show ?thesis by (simp add: variantInterface_def)
qed

lemma handleFieldSelectionSetValue_not_None:
  assumes "\<And>ss v g'. fieldSelectionSet field = Some ss \<Longrightarrow>
             v \<in> set (exhaustiveVariants (getTypeCasesForSelectionSet D g ss)) \<Longrightarrow>
             gp (Some v) g' \<noteq> None"
  shows "handleFieldSelectionSetValue gp D ident field g \<noteq> None"
proof (cases "fieldSelectionSet field")
  case None
  then show ?thesis by (simp add: handleFieldSelectionSetValue_def throwG_def)
next
  case (Some ss)
  let ?vs = "exhaustiveVariants (getTypeCasesForSelectionSet D g ss)"
  show ?thesis
  proof (cases "length ?vs = 1")
    case True
    from length_1_js_first[OF True] obtain v where v: "js_first ?vs = Some v" by blast
    have "gp (Some v) g \<noteq> None"
      using assms[OF Some js_first_in_set[OF v]] .
    then have "bindG (gp (js_first ?vs) g)
                  (\<lambda>properties g1.
                     returnG \<lparr> propName = aliasOrName field,
                          propDescription = fieldDescription field,
                          propType = TypeFromGraphQLType (fieldType field) (Some ident) \<rparr>
                       (enqueue (Node (ExportDeclaration
                          (InterfaceDeclaration (nameFromScopeStack D (scopeStack g1))
                             properties False))) g1)) \<noteq> None"
      unfolding v by (rule bindG_not_None) (simp add: returnG_def)
    with True Some show ?thesis by (simp add: handleFieldSelectionSetValue_def Let_def)
  next
    case False
    have "mapG (variantInterface gp D) ?vs g \<noteq> None"
      by (rule mapG_not_None) (rule variantInterface_not_None, rule assms[OF Some])
    then have "bindG (mapG (variantInterface gp D) ?vs g)
                  (\<lambda>identifiers g1.
                     returnG \<lparr> propName = aliasOrName field,
                          propDescription = fieldDescription field,
                          propType = TypeFromGraphQLType (fieldType field) (Some ident) \<rparr>
                       (enqueue (Node (ExportDeclaration
                          (TypeAliasGenericUnion ident
                             (map TSTypeReference identifiers)))) g1)) \<noteq> None"
      by (rule bindG_not_None) (simp add: returnG_def)
    with False Some show ?thesis by (simp add: handleFieldSelectionSetValue_def Let_def)
  qed
qed

lemma propertyForField_not_None:
  assumes "\<And>ss m v g'. fieldSelectionSet field = Some ss \<Longrightarrow>
             v \<in> set (exhaustiveVariants (typeCaseForSelectionSet D ss m)) \<Longrightarrow>
             gp (Some v) g' \<noteq> None"
  shows "propertyForField gp D variant field g \<noteq> None"
  unfolding propertyForField_def Let_def
proof (rule bindG_not_None)
  let ?g1 = "scopeStackPush (case fieldAlias field of None \<Rightarrow> fieldName field | Some a \<Rightarrow> a) g"
  show "(if fieldSelectionSet field \<noteq> None
         then handleFieldSelectionSetValue gp D (nameFromScopeStack D (scopeStack ?g1)) field ?g1
         else returnG (handleFieldValue field variant) ?g1) \<noteq> None"
  proof (cases "fieldSelectionSet field \<noteq> None")
    case True
    have "handleFieldSelectionSetValue gp D (nameFromScopeStack D (scopeStack ?g1)) field ?g1 \<noteq> None"
    proof (rule handleFieldSelectionSetValue_not_None)
      fix ss v g'
      assume ss: "fieldSelectionSet field = Some ss"
        and v: "v \<in> set (exhaustiveVariants (getTypeCasesForSelectionSet D ?g1 ss))"
      from v show "gp (Some v) g' \<noteq> None"
        unfolding getTypeCasesForSelectionSet_def by (rule assms[OF ss])
    qed
    with True show ?thesis by simp
  next
    case False
    then show ?thesis by (simp add: returnG_def)
  qed
next
  fix res g2
  show "returnG res (scopeStackPop g2) \<noteq> None" by (simp add: returnG_def)
qed

lemma getPropertiesForVariant_enough_fuel:
  assumes d: "decreasing D \<mu>"
  shows "\<mu> v < fuel \<Longrightarrow> getPropertiesForVariant fuel D (Some v) g \<noteq> None"
proof (induction fuel arbitrary: v g)
  case 0
  then show ?case by simp
next
  case (Suc fuel)
  let ?m = "mergeInFieldsFromFragmentSpreads (options (genContext g))"
  have "mapG (propertyForField (getPropertiesForVariant fuel D) D v)
          (collectAndMergeFields D v ?m) g \<noteq> None"
  proof (rule mapG_not_None, rule propertyForField_not_None)
    fix f ss m' v' g'
    assume f: "f \<in> set (collectAndMergeFields D v ?m)"
      and ss: "fieldSelectionSet f = Some ss"
      and v': "v' \<in> set (exhaustiveVariants (typeCaseForSelectionSet D ss m'))"
    from d f ss v' have "\<mu> v' < \<mu> v" unfolding decreasing_def by blast
    with Suc.prems have "\<mu> v' < fuel" by simp
    then show "getPropertiesForVariant fuel D (Some v') g' \<noteq> None"
      by (rule Suc.IH)
  qed
  then show ?case unfolding getPropertiesForVariant_Suc_Some .
qed

lemma getPropertiesForVariant_option_enough_fuel:
  assumes d: "decreasing D \<mu>"
    and b: "\<And>v. variant = Some v \<Longrightarrow> \<mu> v < fuel" and p: "0 < fuel"
  shows "getPropertiesForVariant fuel D variant g \<noteq> None"
proof (cases variant)
  case None
  from p obtain k where "fuel = Suc k" by (cases fuel) auto
  with None show ?thesis by (simp add: throwG_def)
next
  case (Some v)
  from getPropertiesForVariant_enough_fuel[OF d b[OF Some]] Some show ?thesis by simp
qed

lemma member_le_sum_list_map:
  "x \<in> set xs \<Longrightarrow> g x \<le> sum_list (map g xs)" for g :: "'a \<Rightarrow> nat"
  by (induction xs) auto

lemma in_concat_map: "x \<in> set xs \<Longrightarrow> y \<in> set (f x) \<Longrightarrow> y \<in> set (concat (map f xs))"
  by auto

lemma bool_option_cases: "m \<in> set [None, Some True, Some False]" for m :: "bool option"
  by (cases m) auto

lemma rootVariants_bound:
  assumes ss: "ss \<in> set (rootSelectionSets ctx)"
    and v: "v \<in> set (exhaustiveVariants (typeCaseForSelectionSet D ss m))"
  shows "\<mu> v < enoughFuel D \<mu> ctx"
proof -
  have "v \<in> set (concat (map (\<lambda>m. exhaustiveVariants (typeCaseForSelectionSet D ss m))
                         [None, Some True, Some False]))"
    using bool_option_cases[of m] v by (rule in_concat_map)
  with ss have "v \<in> set (rootVariants D ctx)"
    unfolding rootVariants_def by (rule in_concat_map)
  then have "\<mu> v \<le> sum_list (map \<mu> (rootVariants D ctx))"
    by (rule member_le_sum_list_map)
  then show ?thesis by (simp add: enoughFuel_def)
qed

lemma interfacesForOperation_enough_fuel:
  assumes d: "decreasing D \<mu>"
    and b: "\<And>v m. v \<in> set (exhaustiveVariants (typeCaseForSelectionSet D (opSelectionSet operation) m))
              \<Longrightarrow> \<mu> v < fuel"
    and p: "0 < fuel"
  shows "interfacesForOperation fuel D operation g \<noteq> None"
  unfolding interfacesForOperation_def Let_def
proof (rule bindG_not_None)
  let ?g2 = "enqueue (operationComment operation) (scopeStackPush (operationName operation) g)"
  show "getPropertiesForVariant fuel D
          (js_first (getVariantsForSelectionSet D ?g2 (opSelectionSet operation))) ?g2 \<noteq> None"
  proof (rule getPropertiesForVariant_option_enough_fuel[OF d _ p])
    fix v
    assume "js_first (getVariantsForSelectionSet D ?g2 (opSelectionSet operation)) = Some v"
    then have "v \<in> set (getVariantsForSelectionSet D ?g2 (opSelectionSet operation))"
      by (rule js_first_in_set)
    then show "\<mu> v < fuel"
      unfolding getVariantsForSelectionSet_def getTypeCasesForSelectionSet_def by (rule b)
  qed
next
  fix properties g3
  show "returnG ()
          (variablesInterface operation
            (scopeStackPop
              (enqueue (Node (ExportDeclaration
                 (InterfaceDeclaration (operationName operation) properties False))) g3))) \<noteq> None"
    by (simp add: returnG_def)
qed

lemma interfacesForFragment_enough_fuel:
  assumes d: "decreasing D \<mu>"
    and b: "\<And>v m. v \<in> set (exhaustiveVariants (typeCaseForSelectionSet D (fragSelectionSet fragment) m))
              \<Longrightarrow> \<mu> v < fuel"
    and p: "0 < fuel"
  shows "interfacesForFragment fuel D fragment g \<noteq> None"
proof -
  let ?g2 = "enqueue (fragmentComment fragment) (scopeStackPush (fragmentName fragment) g)"
  let ?vs = "getVariantsForSelectionSet D ?g2 (fragSelectionSet fragment)"
  have bound: "\<mu> v < fuel" if "v \<in> set ?vs" for v
    using that unfolding getVariantsForSelectionSet_def getTypeCasesForSelectionSet_def by (rule b)
  show ?thesis
  proof (cases "length ?vs = 1")
    case True
    have "getPropertiesForVariant fuel D (js_first ?vs) ?g2 \<noteq> None"
      by (rule getPropertiesForVariant_option_enough_fuel[OF d _ p])
        (rule bound, erule js_first_in_set)
    then have "bindG (getPropertiesForVariant fuel D (js_first ?vs) ?g2)
             (\<lambda>properties g3.
                let name = nameFromScopeStack D (scopeStack g3);
                    g4 = enqueue (Node (ExportDeclaration
                           (InterfaceDeclaration name properties False))) g3
                in returnG () (scopeStackPop g4)) \<noteq> None"
      by (rule bindG_not_None) (simp add: Let_def returnG_def)
    with True show ?thesis by (simp add: interfacesForFragment_def Let_def)
  next
    case False
    have "mapG (variantInterface (getPropertiesForVariant fuel D) D) ?vs ?g2 \<noteq> None"
      by (rule mapG_not_None, rule variantInterface_not_None,
          rule getPropertiesForVariant_enough_fuel[OF d], erule bound)
    then have "bindG (mapG (variantInterface (getPropertiesForVariant fuel D) D) ?vs ?g2)
             (\<lambda>unionMembers g3.
                let g4 = enqueue (Node (ExportDeclaration
                           (TypeAliasGenericUnion (nameFromScopeStack D (scopeStack g3))
                              (map TSTypeReference unionMembers)))) g3
                in returnG () (scopeStackPop g4)) \<noteq> None"
      by (rule bindG_not_None) (simp add: Let_def returnG_def)
    with False show ?thesis by (simp add: interfacesForFragment_def Let_def)
  qed
qed

lemma generateSource_enough_fuel:
  assumes d: "decreasing D \<mu>"
  shows "generateSource (enoughFuel D \<mu> ctx) D ctx \<noteq> None"
proof -
  let ?n = "enoughFuel D \<mu> ctx"
  have p: "0 < ?n" by (simp add: enoughFuel_def)
  have op: "operationFile ?n D operation g \<noteq> None"
    if "operation \<in> set (map snd (operations ctx))" for operation g
    unfolding operationFile_def
  proof (rule bindG_not_None)
    from that have "opSelectionSet operation \<in> set (rootSelectionSets ctx)"
      by (auto simp: rootSelectionSets_def)
    then show "interfacesForOperation ?n D operation (fileHeader g) \<noteq> None"
      by (rule interfacesForOperation_enough_fuel[OF d rootVariants_bound p])
  next
    fix u g1
    show "(let (output, g2) = printAndClear D g1
           in returnG \<lparr> sourcePath = opFilePath operation,
                        fileName = operationName operation @ ''.ts'',
                        content = output \<rparr> g2) \<noteq> None"
      by (simp add: returnG_def split_def Let_def)
  qed
  have fr: "fragmentFile ?n D fragment g \<noteq> None"
    if "fragment \<in> set (map snd (fragments ctx))" for fragment g
    unfolding fragmentFile_def
  proof (rule bindG_not_None)
    from that have "fragSelectionSet fragment \<in> set (rootSelectionSets ctx)"
      by (auto simp: rootSelectionSets_def)
    then show "interfacesForFragment ?n D fragment (fileHeader g) \<noteq> None"
      by (rule interfacesForFragment_enough_fuel[OF d rootVariants_bound p])
  next
    fix u g1
    show "(let (output, g2) = printAndClear D g1
           in returnG \<lparr> sourcePath = fragFilePath fragment,
                        fileName = fragmentName fragment @ ''.ts'',
                        content = output \<rparr> g2) \<noteq> None"
      by (simp add: returnG_def split_def Let_def)
  qed
  let ?b = "bindG (mapG (operationFile ?n D) (map snd (operations ctx)) (newGenerator ctx))
             (\<lambda>operationFiles g1.
                bindG (mapG (fragmentFile ?n D) (map snd (fragments ctx)) g1)
                  (\<lambda>fragmentFiles g2. returnG (operationFiles @ fragmentFiles) g2))"
  have "?b \<noteq> None"
  proof (rule bindG_not_None)
    show "mapG (operationFile ?n D) (map snd (operations ctx)) (newGenerator ctx) \<noteq> None"
      by (rule mapG_not_None) (rule op)
  next
    fix operationFiles g1
    show "bindG (mapG (fragmentFile ?n D) (map snd (fragments ctx)) g1)
            (\<lambda>fragmentFiles g2. returnG (operationFiles @ fragmentFiles) g2) \<noteq> None"
      by (rule bindG_not_None, rule mapG_not_None, rule fr) (simp_all add: returnG_def)
  qed
  then obtain r0 where r0: "?b = Some r0" by auto
  show ?thesis
  proof (cases r0)
    case (Inl e)
    with r0 show ?thesis by (simp add: generateSource_def)
  next
    case (Inr fg)
    obtain files g2 where "fg = (files, g2)" by (cases fg)
    with r0 Inr show ?thesis by (simp add: generateSource_def Let_def split_def)
  qed
qed

lemma generateSource_total:
  assumes d: "decreasing D \<mu>" and n: "enoughFuel D \<mu> ctx \<le> n"
  shows "\<exists>r. generateSource n D ctx = Some r
           \<and> generateSource (enoughFuel D \<mu> ctx) D ctx = Some r"
proof -
  from generateSource_enough_fuel[OF d, of ctx]
  obtain r where r: "generateSource (enoughFuel D \<mu> ctx) D ctx = Some r" by auto
  from generateSource_mono[OF n r] r show ?thesis by blast
qed

lemma sum_list_map_concat:
  "sum_list (map g (concat xss)) = sum_list (map (\<lambda>xs. sum_list (map g xs)) xss)"
  by (induction xss) simp_all

lemma sum_applicable:
  "sum_list (map (\<lambda>f. Suc (weightField f)) (applicableFields t ss)) < weightSelectionSet ss"
  "sum_list (map (\<lambda>f. Suc (weightField f)) (applicableSelection t sel)) \<le> weightSelection sel"
proof (induction t ss and t sel rule: applicableFields_applicableSelection.induct)
  case (1 t pts sels)
  have "sum_list (map (\<lambda>f. Suc (weightField f)) (concat (map (applicableSelection t) sels)))
          = sum_list (map (\<lambda>s. sum_list (map (\<lambda>f. Suc (weightField f)) (applicableSelection t s))) sels)"
    by (simp add: sum_list_map_concat comp_def)
  also have "\<dots> \<le> sum_list (map weightSelection sels)"
    by (rule sum_list_mono) (rule 1)
  finally show ?case by simp
next
  case (2 t f)
  then show ?case by simp
next
  case (3 t ty ss)
  show ?case
  proof (cases "t \<in> set (possibleTypes ss)")
    case True
    from 3[OF True] True show ?thesis by simp
  next
    case False
    then show ?thesis by simp
  qed
next
  case (4 t n ss)
  show ?case
  proof (cases "t \<in> set (possibleTypes ss)")
    case True
    from 4[OF True] True show ?thesis by simp
  next
    case False
    then show ?thesis by simp
  qed
qed

lemma weightVariant_variantsFor:
  assumes "v \<in> set (variantsFor ss)"
  shows "weightVariant v < weightSelectionSet ss"
proof -
  let ?key = "\<lambda>t. applicableFields t ss"
  from assms obtain k ts where kt: "(k, ts) \<in> set (groupByKey ?key (possibleTypes ss))"
    and v: "v = Variant ts (map FieldSelection k)"
    by (auto simp: variantsFor_def)
  from groupByKey_ok[of ?key "possibleTypes ss"] kt
  have "ts \<noteq> []" and "\<forall>y \<in> set ts. ?key y = k"
    by (auto simp: groupsOk_def)
  then obtain t where "k = applicableFields t ss" by (cases ts) auto
  with v sum_applicable(1)[of t ss] show ?thesis
    by (simp add: weightVariant_def comp_def)
qed

lemma weightVariant_field:
  assumes "FieldSelection f \<in> set (variantSelections v)" and "fieldSelectionSet f = Some ss"
  shows "weightSelectionSet ss < weightVariant v"
proof -
  from assms(2) have "weightSelection (FieldSelection f) = Suc (Suc (weightSelectionSet ss))"
    by (cases f) simp
  moreover from assms(1) have "weightSelection (FieldSelection f) \<le> weightVariant v"
    unfolding weightVariant_def by (rule member_le_sum_list_map)
  ultimately show ?thesis by simp
qed

lemma decreasing_variantsFor:
  assumes tc: "\<And>ss m. exhaustiveVariants (typeCaseForSelectionSet D ss m) = variantsFor ss"
    and cm: "\<And>v m f. f \<in> set (collectAndMergeFields D v m)
                \<Longrightarrow> FieldSelection f \<in> set (variantSelections v)"
  shows "decreasing D weightVariant"
  unfolding decreasing_def
proof (intro allI impI, elim conjE)
  fix v m m' f ss v'
  assume f: "f \<in> set (collectAndMergeFields D v m)"
    and ss: "fieldSelectionSet f = Some ss"
    and v': "v' \<in> set (exhaustiveVariants (typeCaseForSelectionSet D ss m'))"
  from v' have "weightVariant v' < weightSelectionSet ss"
    unfolding tc by (rule weightVariant_variantsFor)
  also have "\<dots> < weightVariant v"
    using cm[OF f] ss by (rule weightVariant_field)
  finally show "weightVariant v' < weightVariant v" .
qed

lemma set_firstOfEachKey: "set (firstOfEachKey fs seen) \<subseteq> set fs"
  by (induction fs seen rule: firstOfEachKey.induct) (auto simp: Let_def)

lemma decreasing_exampleDeps: "decreasing exampleDeps weightVariant"
proof (rule decreasing_variantsFor)
  fix ss m
  show "exhaustiveVariants (typeCaseForSelectionSet exampleDeps ss m) = variantsFor ss"
    by (simp add: exampleDeps_def)
next
  fix v m f
  let ?fs = "concat (map (\<lambda>s. case s of FieldSelection f \<Rightarrow> [f] | _ \<Rightarrow> [])
               (variantSelections v))"
  assume "f \<in> set (collectAndMergeFields exampleDeps v m)"
  then have "f \<in> set (firstOfEachKey ?fs [])"
    by (simp add: exampleDeps_def exampleCollectFields_def)
  with set_firstOfEachKey[of ?fs "[]"] have "f \<in> set ?fs"
    by (rule subsetD)
  then show "FieldSelection f \<in> set (variantSelections v)"
    by (auto split: Selection.splits)
qed

lemma generateSource_exampleDeps_total:
  "\<exists>r. generateSource (enoughFuel exampleDeps weightVariant ctx) exampleDeps ctx = Some r"
  using generateSource_enough_fuel[OF decreasing_exampleDeps, of ctx] by auto

lemma returned_returnG: "returned (returnG x g)"
  by (simp add: returned_def returnG_def)

lemma bindG_returned:
  assumes "returned m" and "\<And>x g. returned (k x g)"
  shows "returned (bindG m k)"
proof -
  from returnedD[OF assms(1)] obtain x g where "m = Some (Inr (x, g))" by blast
  then show ?thesis using assms(2)[of x g] by simp
qed

lemma mapG_returned:
  assumes "\<And>x g. x \<in> set xs \<Longrightarrow> returned (f x g)"
  shows "returned (mapG f xs g)"
  using assms
proof (induction xs arbitrary: g)
  case Nil
  show ?case by (simp add: returned_returnG)
next
  case (Cons x xs)
  have fx: "returned (f x g)" using Cons.prems by simp
  have rest: "returned (mapG f xs g1)" for g1 using Cons.IH Cons.prems by simp
  show ?case
    unfolding mapG.simps
  proof (rule bindG_returned[OF fx])
    fix y g1
    show "returned (bindG (mapG f xs g1) (\<lambda>ys g2. returnG (y # ys) g2))"
      by (rule bindG_returned[OF rest]) (rule returned_returnG)
  qed
qed

lemma variantInterface_returned:
  assumes ne: "variantPossibleTypes v \<noteq> []" and gp: "\<And>g. returned (gp (Some v) g)"
  shows "returned (variantInterface gp D v g)"
proof -
  from ne obtain t where t: "js_first (variantPossibleTypes v) = Some t"
    by (cases "variantPossibleTypes v") (auto simp: js_first_def)
  have "returned (bindG (gp (Some v) (scopeStackPush (typeToString t) g))
            (\<lambda>properties g1.
               let identifierName = nameFromScopeStack D (scopeStack g1);
                   g2 = enqueue (Node (ExportDeclaration
                          (InterfaceDeclaration identifierName properties False))) g1
               in returnG identifierName (scopeStackPop g2)))"
    by (rule bindG_returned[OF gp]) (simp add: Let_def returned_returnG)
  with t show ?thesis by (simp add: variantInterface_def)
qed

lemma handleFieldSelectionSetValue_returned:
  assumes ss: "fieldSelectionSet field = Some ss"
    and ne: "\<And>v. v \<in> set (exhaustiveVariants (getTypeCasesForSelectionSet D g ss))
               \<Longrightarrow> variantPossibleTypes v \<noteq> []"
    and gp: "\<And>v g'. v \<in> set (exhaustiveVariants (getTypeCasesForSelectionSet D g ss))
               \<Longrightarrow> returned (gp (Some v) g')"
  shows "returned (handleFieldSelectionSetValue gp D ident field g)"
proof -
  let ?vs = "exhaustiveVariants (getTypeCasesForSelectionSet D g ss)"
  show ?thesis
  proof (cases "length ?vs = 1")
    case True
    from length_1_js_first[OF True] obtain v where v: "js_first ?vs = Some v" by blast
    have "returned (gp (Some v) g)"
      using gp[OF js_first_in_set[OF v]] .
    then have "returned (bindG (gp (js_first ?vs) g)
                  (\<lambda>properties g1.
                     returnG \<lparr> propName = aliasOrName field,
                          propDescription = fieldDescription field,
                          propType = TypeFromGraphQLType (fieldType field) (Some ident) \<rparr>
                       (enqueue (Node (ExportDeclaration
                          (InterfaceDeclaration (nameFromScopeStack D (scopeStack g1))
                             properties False))) g1)))"
      unfolding v by (rule bindG_returned) (rule returned_returnG)
    with True ss show ?thesis by (simp add: handleFieldSelectionSetValue_def Let_def)
  next
    case False
    have "returned (mapG (variantInterface gp D) ?vs g)"
      by (rule mapG_returned) (rule variantInterface_returned, erule ne, erule gp)
    then have "returned (bindG (mapG (variantInterface gp D) ?vs g)
                  (\<lambda>identifiers g1.
                     returnG \<lparr> propName = aliasOrName field,
                          propDescription = fieldDescription field,
                          propType = TypeFromGraphQLType (fieldType field) (Some ident) \<rparr>
                       (enqueue (Node (ExportDeclaration
                          (TypeAliasGenericUnion ident
                             (map TSTypeReference identifiers)))) g1)))"
      by (rule bindG_returned) (rule returned_returnG)
    with False ss show ?thesis by (simp add: handleFieldSelectionSetValue_def Let_def)
  qed
qed

lemma propertyForField_returned:
  assumes ne: "nonEmptyVariants D"
    and gp: "\<And>ss m v g'. fieldSelectionSet field = Some ss \<Longrightarrow>
             v \<in> set (exhaustiveVariants (typeCaseForSelectionSet D ss m)) \<Longrightarrow>
             returned (gp (Some v) g')"
  shows "returned (propertyForField gp D variant field g)"
  unfolding propertyForField_def Let_def
proof (rule bindG_returned)
  let ?g1 = "scopeStackPush (case fieldAlias field of None \<Rightarrow> fieldName field | Some a \<Rightarrow> a) g"
  show "returned (if fieldSelectionSet field \<noteq> None
         then handleFieldSelectionSetValue gp D (nameFromScopeStack D (scopeStack ?g1)) field ?g1
         else returnG (handleFieldValue field variant) ?g1)"
  proof (cases "fieldSelectionSet field")
    case None
    then show ?thesis by (simp add: returned_returnG)
  next
    case (Some ss)
    have "returned (handleFieldSelectionSetValue gp D (nameFromScopeStack D (scopeStack ?g1)) field ?g1)"
    proof (rule handleFieldSelectionSetValue_returned[OF Some])
      fix v
      assume "v \<in> set (exhaustiveVariants (getTypeCasesForSelectionSet D ?g1 ss))"
      with ne show "variantPossibleTypes v \<noteq> []"
        unfolding nonEmptyVariants_def getTypeCasesForSelectionSet_def by blast
    next
      fix v g'
      assume "v \<in> set (exhaustiveVariants (getTypeCasesForSelectionSet D ?g1 ss))"
      then show "returned (gp (Some v) g')"
        unfolding getTypeCasesForSelectionSet_def by (rule gp[OF Some])
    qed
    with Some show ?thesis by simp
  qed
next
  fix res g2
  show "returned (returnG res (scopeStackPop g2))" by (rule returned_returnG)
qed

lemma getPropertiesForVariant_returns:
  assumes d: "decreasing D \<mu>" and ne: "nonEmptyVariants D"
  shows "\<mu> v < fuel \<Longrightarrow> returned (getPropertiesForVariant fuel D (Some v) g)"
proof (induction fuel arbitrary: v g)
  case 0
  then show ?case by simp
next
  case (Suc fuel)
  let ?m = "mergeInFieldsFromFragmentSpreads (options (genContext g))"
  have "returned (mapG (propertyForField (getPropertiesForVariant fuel D) D v)
          (collectAndMergeFields D v ?m) g)"
  proof (rule mapG_returned, rule propertyForField_returned[OF ne])
    fix f ss m' v' g'
    assume f: "f \<in> set (collectAndMergeFields D v ?m)"
      and ss: "fieldSelectionSet f = Some ss"
      and v': "v' \<in> set (exhaustiveVariants (typeCaseForSelectionSet D ss m'))"
    from d f ss v' have "\<mu> v' < \<mu> v" unfolding decreasing_def by blast
    with Suc.prems have "\<mu> v' < fuel" by simp
    then show "returned (getPropertiesForVariant fuel D (Some v') g')"
      by (rule Suc.IH)
  qed
  then show ?case unfolding getPropertiesForVariant_Suc_Some .
qed

lemma pop_push: "scopeStackPop (scopeStackPush n g) = g"
  by (simp add: scopeStackPop_def scopeStackPush_def)

lemma propertyForField_leaf:
  "fieldSelectionSet field = None \<Longrightarrow>
     propertyForField gp D variant field g = Some (Inr (handleFieldValue field variant, g))"
  by (simp add: propertyForField_def Let_def returnG_def pop_push)

lemma mapG_leaf:
  "list_all (\<lambda>f. fieldSelectionSet f = None) fs \<Longrightarrow>
     mapG (propertyForField gp D variant) fs g
       = Some (Inr (map (\<lambda>f. handleFieldValue f variant) fs, g))"
  by (induction fs) (simp_all add: returnG_def propertyForField_leaf)

lemma getPropertiesForVariant_leaf:
  assumes "list_all (\<lambda>f. fieldSelectionSet f = None)
             (collectAndMergeFields D variant
                (mergeInFieldsFromFragmentSpreads (options (genContext g))))"
  shows "getPropertiesForVariant (Suc fuel) D (Some variant) g
       = Some (Inr (map (\<lambda>f. handleFieldValue f variant)
                      (collectAndMergeFields D variant
                         (mergeInFieldsFromFragmentSpreads (options (genContext g)))), g))"
  unfolding getPropertiesForVariant_Suc_Some by (rule mapG_leaf[OF assms])

lemma interfacesForFragment_returned:
  assumes d: "decreasing D \<mu>" and ne: "nonEmptyVariants D"
    and b: "list_all (\<lambda>v. \<mu> v < fuel)
              (exhaustiveVariants (typeCaseForSelectionSet D (fragSelectionSet fragment)
                 (mergeInFieldsFromFragmentSpreads (options (genContext g)))))"
  shows "returned (interfacesForFragment fuel D fragment g)"
proof -
  let ?g2 = "enqueue (fragmentComment fragment) (scopeStackPush (fragmentName fragment) g)"
  let ?vs = "exhaustiveVariants (typeCaseForSelectionSet D (fragSelectionSet fragment)
               (mergeInFieldsFromFragmentSpreads (options (genContext g))))"
  have vs: "getVariantsForSelectionSet D ?g2 (fragSelectionSet fragment) = ?vs"
    by (simp add: getVariantsForSelectionSet_def getTypeCasesForSelectionSet_def
        enqueue_def scopeStackPush_def)
  have bound: "\<mu> v < fuel" if "v \<in> set ?vs" for v
    using b that by (simp add: list_all_iff)
  have nonempty: "variantPossibleTypes v \<noteq> []" if "v \<in> set ?vs" for v
    using ne that unfolding nonEmptyVariants_def by blast
  show ?thesis
  proof (cases "length ?vs = 1")
    case True
    from length_1_js_first[OF True] obtain v where v: "js_first ?vs = Some v" by blast
    have "returned (getPropertiesForVariant fuel D (Some v) ?g2)"
      by (rule getPropertiesForVariant_returns[OF d ne bound[OF js_first_in_set[OF v]]])
    then have "returned (bindG (getPropertiesForVariant fuel D (js_first ?vs) ?g2)
             (\<lambda>properties g3.
                let name = nameFromScopeStack D (scopeStack g3);
                    g4 = enqueue (Node (ExportDeclaration
                           (InterfaceDeclaration name properties False))) g3
                in returnG () (scopeStackPop g4)))"
      unfolding v by (rule bindG_returned) (simp add: Let_def returned_returnG)
    with True show ?thesis by (simp add: interfacesForFragment_def Let_def vs)
  next
    case False
    have "returned (mapG (variantInterface (getPropertiesForVariant fuel D) D) ?vs ?g2)"
      by (rule mapG_returned, rule variantInterface_returned, erule nonempty,
          rule getPropertiesForVariant_returns[OF d ne], erule bound)
    then have "returned (bindG (mapG (variantInterface (getPropertiesForVariant fuel D) D) ?vs ?g2)
             (\<lambda>unionMembers g3.
                let g4 = enqueue (Node (ExportDeclaration
                           (TypeAliasGenericUnion (nameFromScopeStack D (scopeStack g3))
                              (map TSTypeReference unionMembers)))) g3
                in returnG () (scopeStackPop g4)))"
      by (rule bindG_returned) (simp add: Let_def returned_returnG)
    with False show ?thesis by (simp add: interfacesForFragment_def Let_def vs)
  qed
qed

lemma field_returned:
  assumes d: "decreasing D \<mu>" and ne: "nonEmptyVariants D"
    and ss: "fieldSelectionSet field = Some selectionSet"
    and b: "list_all (\<lambda>v. \<mu> v < fuel)
              (exhaustiveVariants (typeCaseForSelectionSet D selectionSet
                 (mergeInFieldsFromFragmentSpreads (options (genContext g)))))"
  shows "returned (handleFieldSelectionSetValue (getPropertiesForVariant fuel D) D ident field g)"
proof (rule handleFieldSelectionSetValue_returned[OF ss])
  fix v
  assume "v \<in> set (exhaustiveVariants (getTypeCasesForSelectionSet D g selectionSet))"
  with ne show "variantPossibleTypes v \<noteq> []"
    unfolding nonEmptyVariants_def getTypeCasesForSelectionSet_def by blast
next
  fix v g'
  assume "v \<in> set (exhaustiveVariants (getTypeCasesForSelectionSet D g selectionSet))"
  with b have "\<mu> v < fuel"
    by (simp add: list_all_iff getTypeCasesForSelectionSet_def)
  then show "returned (getPropertiesForVariant fuel D (Some v) g')"
    by (rule getPropertiesForVariant_returns[OF d ne])
qed

lemma first_elements_distinct:
  assumes one: "\<And>t. length (filter (\<lambda>v. t \<in> set (P v)) vs) \<le> 1"
    and ne: "\<And>v. v \<in> set vs \<Longrightarrow> P v \<noteq> []"
  shows "distinct (map (\<lambda>v. hd (P v)) vs)"
  using assms
proof (induction vs)
  case Nil
  then show ?case by simp
next
  case (Cons v vs)
  have le: "length (filter (\<lambda>v. t \<in> set (P v)) vs) \<le> 1" for t
    using Cons.prems(1)[of t] by (simp split: if_splits)
  have ih: "distinct (map (\<lambda>v. hd (P v)) vs)"
    by (rule Cons.IH[OF le]) (simp add: Cons.prems(2))
  have "hd (P v) \<notin> (\<lambda>v. hd (P v)) ` set vs"
  proof
    assume "hd (P v) \<in> (\<lambda>v. hd (P v)) ` set vs"
    then obtain w where w: "w \<in> set vs" and eq: "hd (P w) = hd (P v)" by auto
    let ?t = "hd (P v)"
    have tv: "?t \<in> set (P v)" using Cons.prems(2)[of v] by simp
    have "hd (P w) \<in> set (P w)" using Cons.prems(2)[of w] w by simp
    with eq have tw: "?t \<in> set (P w)" by simp
    from w tw have "filter (\<lambda>v. ?t \<in> set (P v)) vs \<noteq> []"
      by (auto simp: filter_empty_conv)
    then have "length (filter (\<lambda>v. ?t \<in> set (P v)) vs) \<ge> 1"
      by (cases "filter (\<lambda>v. ?t \<in> set (P v)) vs") auto
    with tv have "length (filter (\<lambda>v. ?t \<in> set (P v)) (v # vs)) \<ge> 2" by simp
    with Cons.prems(1)[of ?t] show False by simp
  qed
  with ih show ?case by simp
qed

lemma variantScopeSegment_nonempty:
  "variantPossibleTypes v \<noteq> [] \<Longrightarrow>
     variantScopeSegment v = Some (typeToString (hd (variantPossibleTypes v)))"
  by (cases "variantPossibleTypes v") (simp_all add: variantScopeSegment_def js_first_def)

lemma partition_segments_distinct:
  assumes p: "partitionsPossibleTypes ss vs"
    and inj: "inj_on typeToString (set (possibleTypes ss))"
  shows "distinct (map variantScopeSegment vs)"
proof -
  from p have u: "\<Union> (set (map (\<lambda>v. set (variantPossibleTypes v)) vs)) = set (possibleTypes ss)"
    and one: "\<And>t. length (filter (\<lambda>v. t \<in> set (variantPossibleTypes v)) vs)
                = (if t \<in> set (possibleTypes ss) then 1 else 0)"
    and ne: "\<And>v. v \<in> set vs \<Longrightarrow> variantPossibleTypes v \<noteq> []"
    unfolding partitionsPossibleTypes_def by (simp_all add: list_all_iff)
  have d: "distinct (map (\<lambda>v. hd (variantPossibleTypes v)) vs)"
  proof (rule first_elements_distinct)
    fix t
    show "length (filter (\<lambda>v. t \<in> set (variantPossibleTypes v)) vs) \<le> 1"
      unfolding one by simp
  qed (rule ne)
  have mem: "hd (variantPossibleTypes v) \<in> set (possibleTypes ss)" if "v \<in> set vs" for v
  proof -
    have "hd (variantPossibleTypes v) \<in> set (variantPossibleTypes v)"
      using ne[OF that] by simp
    with that have "hd (variantPossibleTypes v)
        \<in> \<Union> (set (map (\<lambda>v. set (variantPossibleTypes v)) vs))" by auto
    then show ?thesis unfolding u .
  qed
  have seg: "map variantScopeSegment vs
      = map (\<lambda>t. Some (typeToString t)) (map (\<lambda>v. hd (variantPossibleTypes v)) vs)"
    by (simp add: variantScopeSegment_nonempty ne)
  have "inj_on (\<lambda>t. Some (typeToString t)) (set (map (\<lambda>v. hd (variantPossibleTypes v)) vs))"
  proof (rule inj_onI)
    fix a b
    assume a: "a \<in> set (map (\<lambda>v. hd (variantPossibleTypes v)) vs)"
      and b: "b \<in> set (map (\<lambda>v. hd (variantPossibleTypes v)) vs)"
      and e: "Some (typeToString a) = Some (typeToString b)"
    from a mem have "a \<in> set (possibleTypes ss)" by auto
    moreover from b mem have "b \<in> set (possibleTypes ss)" by auto
    moreover from e have "typeToString a = typeToString b" by simp
    ultimately show "a = b" using inj by (simp add: inj_on_def)
  qed
  with d show ?thesis unfolding seg by (simp only: distinct_map)
qed

lemma variantsFor_partitions: "partitionsPossibleTypes ss (variantsFor ss)"
proof -
  let ?key = "\<lambda>t. applicableFields t ss"
  let ?gs = "groupByKey ?key (possibleTypes ss)"
  have m: "mset (concat (map variantPossibleTypes (variantsFor ss))) = mset (possibleTypes ss)"
    by (simp only: variantPossibleTypes_variantsFor mset_groupByKey)
  have s: "set (concat (map snd ?gs)) = set (possibleTypes ss)"
    using mset_groupByKey[of ?key "possibleTypes ss"] by (rule mset_eq_setD)
  have "set (concat (map variantPossibleTypes (variantsFor ss))) = set (possibleTypes ss)"
    using m by (rule mset_eq_setD)
  then have u: "\<Union> (set (map (\<lambda>v. set (variantPossibleTypes v)) (variantsFor ss)))
                  = set (possibleTypes ss)"
    by simp
  have f: "length (filter (\<lambda>v. t \<in> set (variantPossibleTypes v)) (variantsFor ss))
           = (if t \<in> set (possibleTypes ss) then 1 else 0)" for t
  proof -
    have "length (filter (\<lambda>v. t \<in> set (variantPossibleTypes v)) (variantsFor ss))
            = length (filter (\<lambda>g. t \<in> set (snd g)) ?gs)"
      by (simp add: variantsFor_def filter_map comp_def split_def)
    also have "\<dots> = (if t \<in> set (concat (map snd ?gs)) then 1 else 0)"
      by (rule exactly_one_group[OF groupByKey_ok])
    finally show ?thesis unfolding s .
  qed
  have n: "list_all (\<lambda>v. variantPossibleTypes v \<noteq> []) (variantsFor ss)"
    using groupByKey_ok[of ?key "possibleTypes ss"]
    by (auto simp: variantsFor_def list_all_iff groupsOk_def)
  from u f n show ?thesis unfolding partitionsPossibleTypes_def by blast
qed

lemma partitioning_nonEmptyVariants: "partitioning D \<Longrightarrow> nonEmptyVariants D"
  unfolding partitioning_def partitionsPossibleTypes_def nonEmptyVariants_def
  by (auto simp: list_all_iff)

lemma partitioning_exampleDeps: "partitioning exampleDeps"
  unfolding partitioning_def by (simp add: exampleDeps_def variantsFor_partitions)

section \<open>Proofs: the members of a union alias\<close>

lemma joinWith_snoc:
  "st \<noteq> [] \<Longrightarrow> joinWith sep (st @ [a]) = joinWith sep st @ sep @ a"
  by (induction sep st rule: joinWith.induct) auto

lemma nameFromScopeStack_last_inj:
  assumes "nameFromScopeStack D (st @ [a]) = nameFromScopeStack D (st @ [b])"
  shows "a = b"
proof (cases "st = []")
  case True
  with assms show ?thesis by (simp add: nameFromScopeStack_def)
next
  case False
  with assms show ?thesis by (simp add: nameFromScopeStack_def joinWith_snoc)
qed

lemma variantInterface_name:
  assumes gp: "preservesScope getProperties"
    and r: "variantInterface getProperties D variant g = Some (Inr (n, g'))"
  shows "map_option (\<lambda>seg. nameFromScopeStack D (scopeStack g @ [seg])) (variantScopeSegment variant)
           = Some n"
proof -
  from r obtain t where t: "js_first (variantPossibleTypes variant) = Some t"
    unfolding variantInterface_def by (cases "js_first (variantPossibleTypes variant)") auto
  from r t obtain ps g1 where
    p: "getProperties (Some variant) (scopeStackPush (typeToString t) g) = Some (Inr (ps, g1))"
    and n: "n = nameFromScopeStack D (scopeStack g1)"
    unfolding variantInterface_def by (auto elim!: bindG_InrE simp: Let_def)
  have "sameScope (scopeStackPush (typeToString t) g) g1"
    using preservesScopeD[OF gp p] .
  then have "scopeStack g1 = scopeStack g @ [typeToString t]"
    by (simp add: sameScope_def scopeStackPush_def)
  with n t show ?thesis by (simp add: variantScopeSegment_def)
qed

lemma mapG_variantInterface_names:
  assumes gp: "preservesScope getProperties"
  shows "mapG (variantInterface getProperties D) variants g = Some (Inr (names, g')) \<Longrightarrow>
         map (\<lambda>v. map_option (\<lambda>seg. nameFromScopeStack D (scopeStack g @ [seg]))
                    (variantScopeSegment v)) variants
           = map Some names"
proof (induction variants arbitrary: g names)
  case Nil
  then show ?case by simp
next
  case (Cons v vs)
  from Cons.prems obtain n g1 ns where
    1: "variantInterface getProperties D v g = Some (Inr (n, g1))"
    and 2: "mapG (variantInterface getProperties D) vs g1 = Some (Inr (ns, g'))"
    and 3: "names = n # ns"
    by (rule mapG_ConsE)
  have "sameScope g g1"
    using preservesScopeD[OF variantInterface_preservesScope[OF gp] 1] .
  then have s: "scopeStack g1 = scopeStack g" by (simp add: sameScope_def)
  from Cons.IH[OF 2] variantInterface_name[OF gp 1] 3 s show ?case by simp
qed

lemma sibling_names_distinct:
  assumes m: "map (\<lambda>v. map_option (\<lambda>seg. nameFromScopeStack D (st @ [seg]))
                    (variantScopeSegment v)) variants = map Some names"
    and d: "distinct (map variantScopeSegment variants)"
  shows "distinct names"
proof -
  have inj: "inj (map_option (\<lambda>seg. nameFromScopeStack D (st @ [seg])))"
    by (rule option.inj_map) (auto simp: inj_on_def dest: nameFromScopeStack_last_inj)
  have "distinct (map (map_option (\<lambda>seg. nameFromScopeStack D (st @ [seg])))
                  (map variantScopeSegment variants))"
    using d inj_on_subset[OF inj subset_UNIV] by (subst distinct_map) blast
  then have "distinct (map Some names)" using m by (simp add: comp_def)
  then show ?thesis by (simp add: distinct_map)
qed

lemma fragment_union_members:
  assumes r: "interfacesForFragment fuel D fragment g = Some (Inr (u, g'))"
    and n: "length (exhaustiveVariants (typeCaseForSelectionSet D (fragSelectionSet fragment)
              (mergeInFieldsFromFragmentSpreads (options (genContext g))))) \<noteq> 1"
  shows "\<exists>names.
           last (printer g') = Node (ExportDeclaration (TypeAliasGenericUnion
              (nameFromScopeStack D (scopeStack g @ [fragmentName fragment]))
              (map TSTypeReference names)))
         \<and> map (\<lambda>v. map_option
                  (\<lambda>seg. nameFromScopeStack D ((scopeStack g @ [fragmentName fragment]) @ [seg]))
                  (variantScopeSegment v))
               (exhaustiveVariants (typeCaseForSelectionSet D (fragSelectionSet fragment)
                  (mergeInFieldsFromFragmentSpreads (options (genContext g)))))
             = map Some names"
proof -
  let ?g1 = "scopeStackPush (fragmentName fragment) g"
  let ?g2 = "enqueue (fragmentComment fragment) ?g1"
  let ?vs = "exhaustiveVariants (typeCaseForSelectionSet D (fragSelectionSet fragment)
               (mergeInFieldsFromFragmentSpreads (options (genContext g))))"
  have vs: "getVariantsForSelectionSet D ?g2 (fragSelectionSet fragment) = ?vs"
    by (simp add: getVariantsForSelectionSet_def getTypeCasesForSelectionSet_def
        enqueue_def scopeStackPush_def)
  have s2: "scopeStack ?g2 = scopeStack g @ [fragmentName fragment]"
    by (simp add: enqueue_def scopeStackPush_def)
  from r n vs obtain ms g3 where
    m: "mapG (variantInterface (getPropertiesForVariant fuel D) D) ?vs ?g2 = Some (Inr (ms, g3))"
    and g': "g' = scopeStackPop (enqueue (Node (ExportDeclaration
               (TypeAliasGenericUnion (nameFromScopeStack D (scopeStack g3))
                  (map TSTypeReference ms)))) g3)"
    unfolding interfacesForFragment_def Let_def by (auto elim!: bindG_InrE)
  have "sameScope ?g2 g3"
    using preservesScopeD[OF mapG_preservesScope[OF variantInterface_preservesScope[OF
            getPropertiesForVariant_preservesScope]] m] .
  then have s3: "scopeStack g3 = scopeStack g @ [fragmentName fragment]"
    using s2 by (simp add: sameScope_def)
  have l: "last (printer g') = Node (ExportDeclaration (TypeAliasGenericUnion
              (nameFromScopeStack D (scopeStack g @ [fragmentName fragment]))
              (map TSTypeReference ms)))"
    unfolding g' s3 by (simp add: scopeStackPop_def enqueue_def)
  from mapG_variantInterface_names[OF getPropertiesForVariant_preservesScope m] l s2
  show ?thesis by auto
qed

lemma field_union_members:
  assumes r: "handleFieldSelectionSetValue (getPropertiesForVariant fuel D) D ident field g
                = Some (Inr (p, g'))"
    and ss: "fieldSelectionSet field = Some selectionSet"
    and n: "length (exhaustiveVariants (typeCaseForSelectionSet D selectionSet
              (mergeInFieldsFromFragmentSpreads (options (genContext g))))) \<noteq> 1"
  shows "\<exists>names.
           last (printer g') = Node (ExportDeclaration (TypeAliasGenericUnion ident
              (map TSTypeReference names)))
         \<and> map (\<lambda>v. map_option (\<lambda>seg. nameFromScopeStack D (scopeStack g @ [seg]))
                  (variantScopeSegment v))
               (exhaustiveVariants (typeCaseForSelectionSet D selectionSet
                  (mergeInFieldsFromFragmentSpreads (options (genContext g)))))
             = map Some names"
proof -
  let ?vs = "exhaustiveVariants (typeCaseForSelectionSet D selectionSet
               (mergeInFieldsFromFragmentSpreads (options (genContext g))))"
  have vs: "exhaustiveVariants (getTypeCasesForSelectionSet D g selectionSet) = ?vs"
    by (simp add: getTypeCasesForSelectionSet_def)
  from r ss n vs obtain ids g1 where
    m: "mapG (variantInterface (getPropertiesForVariant fuel D) D) ?vs g = Some (Inr (ids, g1))"
    and g': "g' = enqueue (Node (ExportDeclaration
               (TypeAliasGenericUnion ident (map TSTypeReference ids)))) g1"
    unfolding handleFieldSelectionSetValue_def by (auto elim!: bindG_InrE simp: Let_def)
  have l: "last (printer g') = Node (ExportDeclaration (TypeAliasGenericUnion ident
              (map TSTypeReference ids)))"
    unfolding g' by (simp add: enqueue_def)
  from mapG_variantInterface_names[OF getPropertiesForVariant_preservesScope m] l
  show ?thesis by auto
qed

lemma result_variants:
  "exhaustiveVariants (typeCaseForSelectionSet exampleDeps resultSelections
      (mergeInFieldsFromFragmentSpreads (options (genContext outerGenerator))))
   = [successVariant, failureVariant]"
  by (simp add: successVariant_def failureVariant_def example_defs)

lemma result_segments:
  "map variantScopeSegment [successVariant, failureVariant] = [Some ''Success'', Some ''Failure'']"
  by (simp add: variantScopeSegment_def successVariant_def failureVariant_def js_first_def
      tSuccess_def tFailure_def)

section \<open>Proofs: where the emitter takes variants and fields from\<close>

lemma propName_of_properties:
  assumes "getPropertiesForVariant fuel D (Some variant) g = Some (Inr (ps, g'))"
  shows "map propName ps
       = map aliasOrName (collectAndMergeFields D variant
           (mergeInFieldsFromFragmentSpreads (options (genContext g))))"
proof -
  have "list_all2 (\<lambda>field p. propName p = aliasOrName field)
          (collectAndMergeFields D variant (mergeInFieldsFromFragmentSpreads (options (genContext g))))
          ps"
    by (rule list_all2_mono[OF getPropertiesForVariant_pointwise[OF assms]]) simp
  then show ?thesis
    by (induction rule: list_all2_induct) auto
qed

lemma printer_variablesInterface:
  "p \<in> set (printer g) \<Longrightarrow> p \<in> set (printer (variablesInterface operation g))"
  by (simp add: variablesInterface_def Let_def scopeStackPop_def scopeStackPush_def enqueue_def)

lemma operation_interface_from_visitors:
  assumes d: "decreasing D \<mu>" and ne: "nonEmptyVariants D"
    and vs: "exhaustiveVariants (typeCaseForSelectionSet D (opSelectionSet operation)
               (mergeInFieldsFromFragmentSpreads (options (genContext g)))) = v # rest"
    and b: "\<mu> v < fuel"
  shows "\<exists>ps g'. interfacesForOperation fuel D operation g = Some (Inr ((), g'))
           \<and> Node (ExportDeclaration (InterfaceDeclaration (operationName operation) ps False))
                \<in> set (printer g')
           \<and> map propName ps
                = map aliasOrName (collectAndMergeFields D v
                    (mergeInFieldsFromFragmentSpreads (options (genContext g))))"
proof -
  let ?g2 = "enqueue (operationComment operation) (scopeStackPush (operationName operation) g)"
  have c: "genContext ?g2 = genContext g"
    by (simp add: enqueue_def scopeStackPush_def)
  have first: "js_first (getVariantsForSelectionSet D ?g2 (opSelectionSet operation)) = Some v"
    by (simp add: getVariantsForSelectionSet_def getTypeCasesForSelectionSet_def c vs js_first_def)
  from returnedD[OF getPropertiesForVariant_returns[OF d ne b, of ?g2]] obtain ps g3 where
    p: "getPropertiesForVariant fuel D (Some v) ?g2 = Some (Inr (ps, g3))" by blast
  let ?g' = "variablesInterface operation
               (scopeStackPop (enqueue (Node (ExportDeclaration
                  (InterfaceDeclaration (operationName operation) ps False))) g3))"
  have r: "interfacesForOperation fuel D operation g = Some (Inr ((), ?g'))"
    by (simp add: interfacesForOperation_def Let_def first p returnG_def)
  have m: "Node (ExportDeclaration (InterfaceDeclaration (operationName operation) ps False))
             \<in> set (printer ?g')"
    by (rule printer_variablesInterface) (simp add: scopeStackPop_def enqueue_def)
  from propName_of_properties[OF p] have
    n: "map propName ps = map aliasOrName (collectAndMergeFields D v
          (mergeInFieldsFromFragmentSpreads (options (genContext g))))"
    by (simp only: c)
  from r m n show ?thesis by blast
qed

text \<open>
  C1, as the code has it.  The emitter computes variants and merged fields itself, by
  calling the two visitors of the core with the option \<open>mergeInFieldsFromFragmentSpreads\<close>
  of the context.  When \<open>collectAndMergeFields\<close> returns only fields without a selection
  set, \<open>getPropertiesForVariant\<close> returns \<open>handleFieldValue\<close> of each of them, in order,
  and leaves the generator as it was.  When the visitors are decreasing and return no empty
  variant, and the fuel exceeds the measure of the variant, it returns one property for
  each field that \<open>collectAndMergeFields\<close> returns, in order, named by the alias or the
  name of the field; \<open>interfacesForOperation\<close> returns and enqueues the interface of the
  operation with one such property for each field of the first variant that
  \<open>typeCaseForSelectionSet\<close> returns for the root selection set; and for a fragment
  with other than one variant \<open>interfacesForFragment\<close> returns and enqueues last a union
  alias with one member for each variant that \<open>typeCaseForSelectionSet\<close> returns, in
  order, named by the scope stack extended by the first possible type of the variant.
\<close>

theorem emitter_computes_variants_and_fields:
  "(list_all (\<lambda>f. fieldSelectionSet f = None)
      (collectAndMergeFields D variant (mergeInFieldsFromFragmentSpreads (options (genContext g))))
    \<longrightarrow> getPropertiesForVariant (Suc fuel) D (Some variant) g
          = Some (Inr (map (\<lambda>f. handleFieldValue f variant)
                         (collectAndMergeFields D variant
                            (mergeInFieldsFromFragmentSpreads (options (genContext g)))), g)))
 \<and> (decreasing D \<mu> \<and> nonEmptyVariants D \<and> \<mu> variant < fuel
    \<longrightarrow> (\<exists>ps g'. getPropertiesForVariant fuel D (Some variant) g = Some (Inr (ps, g'))
          \<and> map propName ps
              = map aliasOrName (collectAndMergeFields D variant
                  (mergeInFieldsFromFragmentSpreads (options (genContext g))))))
 \<and> (decreasing D \<mu> \<and> nonEmptyVariants D
      \<and> exhaustiveVariants (typeCaseForSelectionSet D (opSelectionSet operation)
            (mergeInFieldsFromFragmentSpreads (options (genContext g)))) = v # rest
      \<and> \<mu> v < fuel
    \<longrightarrow> (\<exists>ps g'. interfacesForOperation fuel D operation g = Some (Inr ((), g'))
          \<and> Node (ExportDeclaration (InterfaceDeclaration (operationName operation) ps False))
               \<in> set (printer g')
          \<and> map propName ps
              = map aliasOrName (collectAndMergeFields D v
                  (mergeInFieldsFromFragmentSpreads (options (genContext g))))))
 \<and> (decreasing D \<mu> \<and> nonEmptyVariants D
      \<and> list_all (\<lambda>v. \<mu> v < fuel)
           (exhaustiveVariants (typeCaseForSelectionSet D (fragSelectionSet fragment)
              (mergeInFieldsFromFragmentSpreads (options (genContext g)))))
      \<and> length (exhaustiveVariants (typeCaseForSelectionSet D (fragSelectionSet fragment)
            (mergeInFieldsFromFragmentSpreads (options (genContext g))))) \<noteq> 1
    \<longrightarrow> (\<exists>names g'. interfacesForFragment fuel D fragment g = Some (Inr ((), g'))
          \<and> last (printer g') = Node (ExportDeclaration (TypeAliasGenericUnion
               (nameFromScopeStack D (scopeStack g @ [fragmentName fragment]))
               (map TSTypeReference names)))
          \<and> map (\<lambda>v. map_option
                   (\<lambda>seg. nameFromScopeStack D ((scopeStack g @ [fragmentName fragment]) @ [seg]))
                   (variantScopeSegment v))
                (exhaustiveVariants (typeCaseForSelectionSet D (fragSelectionSet fragment)
                   (mergeInFieldsFromFragmentSpreads (options (genContext g)))))
              = map Some names))"
proof (intro conjI impI)
  assume "list_all (\<lambda>f. fieldSelectionSet f = None)
      (collectAndMergeFields D variant (mergeInFieldsFromFragmentSpreads (options (genContext g))))"
  then show "getPropertiesForVariant (Suc fuel) D (Some variant) g
          = Some (Inr (map (\<lambda>f. handleFieldValue f variant)
                         (collectAndMergeFields D variant
                            (mergeInFieldsFromFragmentSpreads (options (genContext g)))), g))"
    by (rule getPropertiesForVariant_leaf)
next
  assume a: "decreasing D \<mu> \<and> nonEmptyVariants D \<and> \<mu> variant < fuel"
  then have d: "decreasing D \<mu>" and ne: "nonEmptyVariants D" and b: "\<mu> variant < fuel"
    by simp_all
  have "returned (getPropertiesForVariant fuel D (Some variant) g)"
    by (rule getPropertiesForVariant_returns[OF d ne b])
  from returnedD[OF this] obtain ps g' where
    p: "getPropertiesForVariant fuel D (Some variant) g = Some (Inr (ps, g'))" by blast
  from p propName_of_properties[OF p]
  show "\<exists>ps g'. getPropertiesForVariant fuel D (Some variant) g = Some (Inr (ps, g'))
          \<and> map propName ps
              = map aliasOrName (collectAndMergeFields D variant
                  (mergeInFieldsFromFragmentSpreads (options (genContext g))))"
    by blast
next
  assume a: "decreasing D \<mu> \<and> nonEmptyVariants D
      \<and> exhaustiveVariants (typeCaseForSelectionSet D (opSelectionSet operation)
            (mergeInFieldsFromFragmentSpreads (options (genContext g)))) = v # rest
      \<and> \<mu> v < fuel"
  then have d: "decreasing D \<mu>" and ne: "nonEmptyVariants D"
    and vs: "exhaustiveVariants (typeCaseForSelectionSet D (opSelectionSet operation)
            (mergeInFieldsFromFragmentSpreads (options (genContext g)))) = v # rest"
    and b: "\<mu> v < fuel"
    by simp_all
  show "\<exists>ps g'. interfacesForOperation fuel D operation g = Some (Inr ((), g'))
          \<and> Node (ExportDeclaration (InterfaceDeclaration (operationName operation) ps False))
               \<in> set (printer g')
          \<and> map propName ps
              = map aliasOrName (collectAndMergeFields D v
                  (mergeInFieldsFromFragmentSpreads (options (genContext g))))"
    by (rule operation_interface_from_visitors[OF d ne vs b])
next
  assume a: "decreasing D \<mu> \<and> nonEmptyVariants D
      \<and> list_all (\<lambda>v. \<mu> v < fuel)
           (exhaustiveVariants (typeCaseForSelectionSet D (fragSelectionSet fragment)
              (mergeInFieldsFromFragmentSpreads (options (genContext g)))))
      \<and> length (exhaustiveVariants (typeCaseForSelectionSet D (fragSelectionSet fragment)
            (mergeInFieldsFromFragmentSpreads (options (genContext g))))) \<noteq> 1"
  then have d: "decreasing D \<mu>" and ne: "nonEmptyVariants D"
    and b: "list_all (\<lambda>v. \<mu> v < fuel)
           (exhaustiveVariants (typeCaseForSelectionSet D (fragSelectionSet fragment)
              (mergeInFieldsFromFragmentSpreads (options (genContext g)))))"
    and n: "length (exhaustiveVariants (typeCaseForSelectionSet D (fragSelectionSet fragment)
            (mergeInFieldsFromFragmentSpreads (options (genContext g))))) \<noteq> 1"
    by simp_all
  from returnedD[OF interfacesForFragment_returned[OF d ne b]] obtain u g' where
    r: "interfacesForFragment fuel D fragment g = Some (Inr (u, g'))" by blast
  from fragment_union_members[OF r n] r
  show "\<exists>names g'. interfacesForFragment fuel D fragment g = Some (Inr ((), g'))
          \<and> last (printer g') = Node (ExportDeclaration (TypeAliasGenericUnion
               (nameFromScopeStack D (scopeStack g @ [fragmentName fragment]))
               (map TSTypeReference names)))
          \<and> map (\<lambda>v. map_option
                   (\<lambda>seg. nameFromScopeStack D ((scopeStack g @ [fragmentName fragment]) @ [seg]))
                   (variantScopeSegment v))
                (exhaustiveVariants (typeCaseForSelectionSet D (fragSelectionSet fragment)
                   (mergeInFieldsFromFragmentSpreads (options (genContext g)))))
              = map Some names"
    by auto
qed

lemma weight_rootVariant: "weightVariant rootVariant = 10"
  by (simp add: weightVariant_def rootVariant_def resultField_def resultSelections_def)

lemma weight_result_variants:
  "weightVariant successVariant = 2" "weightVariant failureVariant = 2"
  by (simp_all add: weightVariant_def successVariant_def failureVariant_def)

lemma root_fields: "collectAndMergeFields exampleDeps rootVariant m = [resultField]"
  by (simp add: exampleDeps_def exampleCollectFields_def rootVariant_def Let_def)

lemma root_variants:
  "exhaustiveVariants (typeCaseForSelectionSet exampleDeps (opSelectionSet exampleOperation) m)
     = [rootVariant]"
  by (simp add: exampleDeps_def exampleOperation_def rootVariant_def resultField_def
      variantsFor_def groupByKey_def)

lemma new_generator_context: "genContext (newGenerator ctx) = ctx"
  by (simp add: newGenerator_def)

theorem emitter_computes_variants_and_fields_witness:
  "decreasing exampleDeps weightVariant \<and> nonEmptyVariants exampleDeps
 \<and> getPropertiesForVariant 1 exampleDeps (Some successVariant) (newGenerator exampleContext)
     = Some (Inr ([\<lparr> propName = ''__typename'', propDescription = None,
                      propType = TSUnionType [TSLiteralType ''Success''] \<rparr>,
                   \<lparr> propName = ''value'', propDescription = None,
                      propType = TypeFromGraphQLType tString None \<rparr>],
                  newGenerator exampleContext))
 \<and> weightVariant rootVariant < 11
 \<and> (\<exists>ps g'. getPropertiesForVariant 11 exampleDeps (Some rootVariant) (newGenerator exampleContext)
               = Some (Inr (ps, g'))
        \<and> map propName ps = [''result''])
 \<and> exhaustiveVariants (typeCaseForSelectionSet exampleDeps (opSelectionSet exampleOperation)
      (mergeInFieldsFromFragmentSpreads (options exampleContext))) = [rootVariant]
 \<and> (\<exists>ps g'. interfacesForOperation 11 exampleDeps exampleOperation (newGenerator exampleContext)
               = Some (Inr ((), g'))
        \<and> Node (ExportDeclaration (InterfaceDeclaration ''Run'' ps False)) \<in> set (printer g')
        \<and> map propName ps = [''result''])
 \<and> (\<exists>g'. interfacesForFragment 3 exampleDeps exampleFragment outerGenerator = Some (Inr ((), g'))
        \<and> last (printer g') = Node (ExportDeclaration (TypeAliasGenericUnion ''Outer_Outcome''
             [TSTypeReference ''Outer_Outcome_Success'', TSTypeReference ''Outer_Outcome_Failure''])))"
proof -
  note d = decreasing_exampleDeps
  note ne = partitioning_nonEmptyVariants[OF partitioning_exampleDeps]
  have w: "weightVariant rootVariant < 11" by (simp add: weight_rootVariant)
  have rn: "aliasOrName resultField = ''result''"
    by (simp add: aliasOrName_def resultField_def)
  have on: "operationName exampleOperation = ''Run''"
    by (simp add: exampleOperation_def)
  have A: "getPropertiesForVariant 1 exampleDeps (Some successVariant) (newGenerator exampleContext)
     = Some (Inr ([\<lparr> propName = ''__typename'', propDescription = None,
                      propType = TSUnionType [TSLiteralType ''Success''] \<rparr>,
                   \<lparr> propName = ''value'', propDescription = None,
                      propType = TypeFromGraphQLType tString None \<rparr>],
                  newGenerator exampleContext))"
    using emitter_computes_variants_and_fields[where D = exampleDeps and variant = successVariant
        and g = "newGenerator exampleContext" and fuel = 0]
    unfolding success_fields
    by (simp add: handleFieldValue_def aliasOrName_def successVariant_def tSuccess_def)
  have B: "\<exists>ps g'. getPropertiesForVariant 11 exampleDeps (Some rootVariant) (newGenerator exampleContext)
               = Some (Inr (ps, g'))
        \<and> map propName ps = [''result'']"
    using emitter_computes_variants_and_fields[where D = exampleDeps and variant = rootVariant
        and g = "newGenerator exampleContext" and fuel = 11 and \<mu> = weightVariant] d ne w
    unfolding root_fields by (simp add: rn)
  have v: "exhaustiveVariants (typeCaseForSelectionSet exampleDeps (opSelectionSet exampleOperation)
      (mergeInFieldsFromFragmentSpreads (options exampleContext))) = [rootVariant]"
    by (rule root_variants)
  have C: "\<exists>ps g'. interfacesForOperation 11 exampleDeps exampleOperation (newGenerator exampleContext)
               = Some (Inr ((), g'))
        \<and> Node (ExportDeclaration (InterfaceDeclaration ''Run'' ps False)) \<in> set (printer g')
        \<and> map propName ps = [''result'']"
    using emitter_computes_variants_and_fields[where D = exampleDeps and operation = exampleOperation
        and g = "newGenerator exampleContext" and fuel = 11 and \<mu> = weightVariant
        and v = rootVariant and rest = "[]"] d ne w
    unfolding root_fields new_generator_context v on by (simp add: rn)
  have oc: "genContext outerGenerator = exampleContext"
    by (simp add: outerGenerator_def scopeStackPush_def newGenerator_def)
  have fs: "fragSelectionSet exampleFragment = resultSelections"
    by (simp add: exampleFragment_def)
  have st: "scopeStack outerGenerator = [''Outer'']"
    by (simp add: outerGenerator_def scopeStackPush_def newGenerator_def)
  have fn: "fragmentName exampleFragment = ''Outcome''"
    by (simp add: exampleFragment_def)
  have sep: "scopeSeparator exampleDeps = ''_''"
    by (simp add: exampleDeps_def)
  have prem: "decreasing exampleDeps weightVariant \<and> nonEmptyVariants exampleDeps
      \<and> list_all (\<lambda>v. weightVariant v < 3)
           (exhaustiveVariants (typeCaseForSelectionSet exampleDeps (fragSelectionSet exampleFragment)
              (mergeInFieldsFromFragmentSpreads (options (genContext outerGenerator)))))
      \<and> length (exhaustiveVariants (typeCaseForSelectionSet exampleDeps (fragSelectionSet exampleFragment)
            (mergeInFieldsFromFragmentSpreads (options (genContext outerGenerator))))) \<noteq> 1"
    unfolding fs result_variants by (simp add: d ne weight_result_variants)
  from emitter_computes_variants_and_fields[where D = exampleDeps and fragment = exampleFragment
        and g = outerGenerator and fuel = 3 and \<mu> = weightVariant,
        THEN conjunct2, THEN conjunct2, THEN conjunct2, THEN mp, OF prem]
  obtain names g1 where
    r: "interfacesForFragment 3 exampleDeps exampleFragment outerGenerator = Some (Inr ((), g1))"
    and a: "last (printer g1) = Node (ExportDeclaration (TypeAliasGenericUnion
              (nameFromScopeStack exampleDeps (scopeStack outerGenerator @ [fragmentName exampleFragment]))
              (map TSTypeReference names)))"
    and b: "map (\<lambda>v. map_option
                  (\<lambda>seg. nameFromScopeStack exampleDeps
                     ((scopeStack outerGenerator @ [fragmentName exampleFragment]) @ [seg]))
                  (variantScopeSegment v))
               (exhaustiveVariants (typeCaseForSelectionSet exampleDeps (fragSelectionSet exampleFragment)
                  (mergeInFieldsFromFragmentSpreads (options (genContext outerGenerator)))))
             = map Some names"
    by blast
  from b have "map Some names = map Some [''Outer_Outcome_Success'', ''Outer_Outcome_Failure'']"
    unfolding fs result_variants st fn
    by (simp add: variantScopeSegment_def successVariant_def failureVariant_def js_first_def
        tSuccess_def tFailure_def nameFromScopeStack_def sep)
  then have n1: "names = [''Outer_Outcome_Success'', ''Outer_Outcome_Failure'']"
    by (simp only: inj_map_eq_map[OF inj_Some])
  have e: "last (printer g1) = Node (ExportDeclaration (TypeAliasGenericUnion ''Outer_Outcome''
             [TSTypeReference ''Outer_Outcome_Success'', TSTypeReference ''Outer_Outcome_Failure'']))"
    using a unfolding n1 st fn by (simp add: nameFromScopeStack_def sep)
  from r e have D: "\<exists>g'. interfacesForFragment 3 exampleDeps exampleFragment outerGenerator = Some (Inr ((), g'))
        \<and> last (printer g') = Node (ExportDeclaration (TypeAliasGenericUnion ''Outer_Outcome''
             [TSTypeReference ''Outer_Outcome_Success'', TSTypeReference ''Outer_Outcome_Failure'']))"
    by blast
  from d ne A w B v C D show ?thesis by blast
qed

lemma fragment_shapes_example:
  "emittedShapes (generateSource 2 exampleDeps fragmentOnlyContext)
   = [(''Outcome_Success'', [''__typename'', ''value'']),
      (''Outcome_Failure'', [''__typename'', ''message'']),
      (''Outcome'', [''Outcome_Success'', ''Outcome_Failure''])]"
  by (simp add: emittedShapes_def declaredShapes_def fragmentOnlyContext_def emitter_defs example_defs)

lemma fragment_shapes_singleVariant:
  "emittedShapes (generateSource 2 singleVariantDeps fragmentOnlyContext)
   = [(''Outcome'', [''__typename''])]"
  by (simp add: emittedShapes_def declaredShapes_def fragmentOnlyContext_def singleVariantDeps_def
      emitter_defs example_defs)

lemma fragment_shapes_noFields:
  "emittedShapes (generateSource 2 noFieldsDeps fragmentOnlyContext)
   = [(''Outcome_Success'', []), (''Outcome_Failure'', []),
      (''Outcome'', [''Outcome_Success'', ''Outcome_Failure''])]"
  by (simp add: emittedShapes_def declaredShapes_def fragmentOnlyContext_def noFieldsDeps_def
      emitter_defs example_defs)

text \<open>
  C1, as the specification states it, fails.  If \<open>generateSource\<close> only consumed
  structures already present in the context, its result would not depend on the
  visitors it is linked with.  It does: on the context that holds the fragment
  \<open>Outcome\<close>, replacing \<open>typeCaseForSelectionSet\<close> alone, or \<open>collectAndMergeFields\<close>
  alone, changes the generated files.
\<close>

theorem emitter_output_depends_on_visitors:
  "scopeSeparator singleVariantDeps = scopeSeparator exampleDeps
 \<and> printQueue singleVariantDeps = printQueue exampleDeps
 \<and> collectAndMergeFields singleVariantDeps = collectAndMergeFields exampleDeps
 \<and> generateSource 2 singleVariantDeps fragmentOnlyContext
     \<noteq> generateSource 2 exampleDeps fragmentOnlyContext
 \<and> scopeSeparator noFieldsDeps = scopeSeparator exampleDeps
 \<and> printQueue noFieldsDeps = printQueue exampleDeps
 \<and> typeCaseForSelectionSet noFieldsDeps = typeCaseForSelectionSet exampleDeps
 \<and> generateSource 2 noFieldsDeps fragmentOnlyContext
     \<noteq> generateSource 2 exampleDeps fragmentOnlyContext"
proof -
  have 1: "generateSource 2 singleVariantDeps fragmentOnlyContext
             \<noteq> generateSource 2 exampleDeps fragmentOnlyContext"
  proof
    assume "generateSource 2 singleVariantDeps fragmentOnlyContext
              = generateSource 2 exampleDeps fragmentOnlyContext"
    then have "emittedShapes (generateSource 2 singleVariantDeps fragmentOnlyContext)
             = emittedShapes (generateSource 2 exampleDeps fragmentOnlyContext)"
      by (rule arg_cong)
    then show False
      unfolding fragment_shapes_example fragment_shapes_singleVariant by simp
  qed
  have 2: "generateSource 2 noFieldsDeps fragmentOnlyContext
             \<noteq> generateSource 2 exampleDeps fragmentOnlyContext"
  proof
    assume "generateSource 2 noFieldsDeps fragmentOnlyContext
              = generateSource 2 exampleDeps fragmentOnlyContext"
    then have "emittedShapes (generateSource 2 noFieldsDeps fragmentOnlyContext)
             = emittedShapes (generateSource 2 exampleDeps fragmentOnlyContext)"
      by (rule arg_cong)
    then show False
      unfolding fragment_shapes_example fragment_shapes_noFields by simp
  qed
  have 3: "scopeSeparator singleVariantDeps = scopeSeparator exampleDeps"
    "printQueue singleVariantDeps = printQueue exampleDeps"
    "collectAndMergeFields singleVariantDeps = collectAndMergeFields exampleDeps"
    by (simp_all add: singleVariantDeps_def)
  have 4: "scopeSeparator noFieldsDeps = scopeSeparator exampleDeps"
    "printQueue noFieldsDeps = printQueue exampleDeps"
    "typeCaseForSelectionSet noFieldsDeps = typeCaseForSelectionSet exampleDeps"
    by (simp_all add: noFieldsDeps_def)
  from 1 2 3 4 show ?thesis by blast
qed

section \<open>Proofs: derived names\<close>

lemma collision_shapes:
  "emittedShapes (generateSource 3 exampleDeps collisionContext)
   = [(''Q_r_Success'', [''__typename'', ''value'']),
      (''Q_r_Failure'', [''__typename'', ''message'']),
      (''Q_r'', [''Q_r_Success'', ''Q_r_Failure'']),
      (''Q_r_Success'', [''x'']),
      (''Q'', [''r'', ''r_Success''])]"
  by (simp add: emittedShapes_def declaredShapes_def collisionContext_def collisionOperation_def
      emitter_defs example_defs)

lemma hero_shapes:
  "emittedShapes (generateSource 2 exampleDeps heroContext)
   = [(''Hero'', [''id'']), (''Hero'', [''name''])]"
  by (simp add: emittedShapes_def declaredShapes_def heroContext_def heroOperation_def
      heroFragment_def emitter_defs example_defs)

text \<open>
  C7, as the specification states it, fails: names are the plain join of the scope
  stack and nothing disambiguates them.  With the separator \<open>_\<close>, the shape of the variant
  \<open>Success\<close> of the field \<open>r\<close> and the shape of the field \<open>r_Success\<close> are both declared
  as \<open>Q_r_Success\<close>; whatever the separator, an operation and a fragment named \<open>Hero\<close>
  both declare \<open>Hero\<close>.
\<close>

theorem derived_names_collide:
  "emittedShapes (generateSource 3 exampleDeps collisionContext)
   = [(''Q_r_Success'', [''__typename'', ''value'']),
      (''Q_r_Failure'', [''__typename'', ''message'']),
      (''Q_r'', [''Q_r_Success'', ''Q_r_Failure'']),
      (''Q_r_Success'', [''x'']),
      (''Q'', [''r'', ''r_Success''])]
 \<and> \<not> distinct (map fst (emittedShapes (generateSource 3 exampleDeps collisionContext)))
 \<and> emittedShapes (generateSource 2 exampleDeps heroContext)
   = [(''Hero'', [''id'']), (''Hero'', [''name''])]
 \<and> \<not> distinct (map fst (emittedShapes (generateSource 2 exampleDeps heroContext)))"
  unfolding collision_shapes hero_shapes by simp

lemma object_type_names_inj:
  assumes "list_all (\<lambda>t. case t of GraphQLObjectType n \<Rightarrow> True | _ \<Rightarrow> False) ts"
  shows "inj_on typeToString (set ts)"
proof (rule inj_onI)
  fix x y
  assume x: "x \<in> set ts" and y: "y \<in> set ts" and e: "typeToString x = typeToString y"
  from assms x obtain n where n: "x = GraphQLObjectType n"
    by (cases x) (auto simp: list_all_iff)
  from assms y obtain m where m: "y = GraphQLObjectType m"
    by (cases y) (auto simp: list_all_iff)
  from e n m show "x = y" by simp
qed

text \<open>
  C7, as the code has it.  For a fragment or a field whose selection set yields other
  than one variant, when the visitors are partitioning and decreasing, the fuel exceeds
  the measure of the variants and distinct possible types of the selection set have
  distinct names, the emitter returns, the name derived for each variant is
  \<open>nameFromScopeStack\<close> of the scope stack extended by the name of the variant's first
  possible type, these names are the members of the union alias that is enqueued last,
  and they are pairwise distinct.  The Variant Engine of the specification is
  partitioning, and the segments that it yields for the variants of a selection set are
  pairwise distinct when the names of the possible types are, as they are when the
  possible types are object types.
\<close>

theorem sibling_variant_names_distinct:
  "(partitioning D \<and> decreasing D \<mu>
      \<and> inj_on typeToString (set (possibleTypes (fragSelectionSet fragment)))
      \<and> list_all (\<lambda>v. \<mu> v < fuel)
           (exhaustiveVariants (typeCaseForSelectionSet D (fragSelectionSet fragment)
              (mergeInFieldsFromFragmentSpreads (options (genContext g)))))
      \<and> length (exhaustiveVariants (typeCaseForSelectionSet D (fragSelectionSet fragment)
            (mergeInFieldsFromFragmentSpreads (options (genContext g))))) \<noteq> 1
    \<longrightarrow> (\<exists>names g'.
           interfacesForFragment fuel D fragment g = Some (Inr ((), g'))
         \<and> last (printer g') = Node (ExportDeclaration (TypeAliasGenericUnion
              (nameFromScopeStack D (scopeStack g @ [fragmentName fragment]))
              (map TSTypeReference names)))
         \<and> map (\<lambda>v. map_option
                  (\<lambda>seg. nameFromScopeStack D ((scopeStack g @ [fragmentName fragment]) @ [seg]))
                  (variantScopeSegment v))
               (exhaustiveVariants (typeCaseForSelectionSet D (fragSelectionSet fragment)
                  (mergeInFieldsFromFragmentSpreads (options (genContext g)))))
             = map Some names
         \<and> distinct names))
 \<and> (partitioning D \<and> decreasing D \<mu>
      \<and> fieldSelectionSet field = Some selectionSet
      \<and> inj_on typeToString (set (possibleTypes selectionSet))
      \<and> list_all (\<lambda>v. \<mu> v < fuel)
           (exhaustiveVariants (typeCaseForSelectionSet D selectionSet
              (mergeInFieldsFromFragmentSpreads (options (genContext h)))))
      \<and> length (exhaustiveVariants (typeCaseForSelectionSet D selectionSet
            (mergeInFieldsFromFragmentSpreads (options (genContext h))))) \<noteq> 1
    \<longrightarrow> (\<exists>names p h'.
           handleFieldSelectionSetValue (getPropertiesForVariant fuel D) D ident field h
             = Some (Inr (p, h'))
         \<and> last (printer h') = Node (ExportDeclaration (TypeAliasGenericUnion ident
              (map TSTypeReference names)))
         \<and> map (\<lambda>v. map_option (\<lambda>seg. nameFromScopeStack D (scopeStack h @ [seg]))
                  (variantScopeSegment v))
               (exhaustiveVariants (typeCaseForSelectionSet D selectionSet
                  (mergeInFieldsFromFragmentSpreads (options (genContext h)))))
             = map Some names
         \<and> distinct names))
 \<and> partitionsPossibleTypes ss (variantsFor ss)
 \<and> (inj_on typeToString (set (possibleTypes ss))
    \<longrightarrow> distinct (map variantScopeSegment (variantsFor ss)))
 \<and> (list_all (\<lambda>t. case t of GraphQLObjectType n \<Rightarrow> True | _ \<Rightarrow> False) ts
    \<longrightarrow> inj_on typeToString (set ts))"
proof (intro conjI impI)
  let ?vs = "exhaustiveVariants (typeCaseForSelectionSet D (fragSelectionSet fragment)
               (mergeInFieldsFromFragmentSpreads (options (genContext g))))"
  assume a: "partitioning D \<and> decreasing D \<mu>
      \<and> inj_on typeToString (set (possibleTypes (fragSelectionSet fragment)))
      \<and> list_all (\<lambda>v. \<mu> v < fuel) ?vs \<and> length ?vs \<noteq> 1"
  then have p: "partitioning D" and d: "decreasing D \<mu>"
    and inj: "inj_on typeToString (set (possibleTypes (fragSelectionSet fragment)))"
    and b: "list_all (\<lambda>v. \<mu> v < fuel) ?vs" and n: "length ?vs \<noteq> 1"
    by simp_all
  note ne = partitioning_nonEmptyVariants[OF p]
  from p have "partitionsPossibleTypes (fragSelectionSet fragment) ?vs"
    unfolding partitioning_def by blast
  then have ds: "distinct (map variantScopeSegment ?vs)"
    using inj by (rule partition_segments_distinct)
  from returnedD[OF interfacesForFragment_returned[OF d ne b]] obtain u g' where
    r: "interfacesForFragment fuel D fragment g = Some (Inr (u, g'))" by blast
  from fragment_union_members[OF r n] obtain names where
    l: "last (printer g') = Node (ExportDeclaration (TypeAliasGenericUnion
              (nameFromScopeStack D (scopeStack g @ [fragmentName fragment]))
              (map TSTypeReference names)))"
    and m: "map (\<lambda>v. map_option
                  (\<lambda>seg. nameFromScopeStack D ((scopeStack g @ [fragmentName fragment]) @ [seg]))
                  (variantScopeSegment v)) ?vs
             = map Some names"
    by blast
  have "distinct names" by (rule sibling_names_distinct[OF m ds])
  with r l m show "\<exists>names g'.
           interfacesForFragment fuel D fragment g = Some (Inr ((), g'))
         \<and> last (printer g') = Node (ExportDeclaration (TypeAliasGenericUnion
              (nameFromScopeStack D (scopeStack g @ [fragmentName fragment]))
              (map TSTypeReference names)))
         \<and> map (\<lambda>v. map_option
                  (\<lambda>seg. nameFromScopeStack D ((scopeStack g @ [fragmentName fragment]) @ [seg]))
                  (variantScopeSegment v)) ?vs
             = map Some names
         \<and> distinct names"
    by auto
next
  let ?vs = "exhaustiveVariants (typeCaseForSelectionSet D selectionSet
               (mergeInFieldsFromFragmentSpreads (options (genContext h))))"
  assume a: "partitioning D \<and> decreasing D \<mu>
      \<and> fieldSelectionSet field = Some selectionSet
      \<and> inj_on typeToString (set (possibleTypes selectionSet))
      \<and> list_all (\<lambda>v. \<mu> v < fuel) ?vs \<and> length ?vs \<noteq> 1"
  then have p: "partitioning D" and d: "decreasing D \<mu>"
    and ss: "fieldSelectionSet field = Some selectionSet"
    and inj: "inj_on typeToString (set (possibleTypes selectionSet))"
    and b: "list_all (\<lambda>v. \<mu> v < fuel) ?vs" and n: "length ?vs \<noteq> 1"
    by simp_all
  note ne = partitioning_nonEmptyVariants[OF p]
  from p have "partitionsPossibleTypes selectionSet ?vs"
    unfolding partitioning_def by blast
  then have ds: "distinct (map variantScopeSegment ?vs)"
    using inj by (rule partition_segments_distinct)
  from returnedD[OF field_returned[OF d ne ss b]] obtain q h' where
    r: "handleFieldSelectionSetValue (getPropertiesForVariant fuel D) D ident field h
          = Some (Inr (q, h'))" by blast
  from field_union_members[OF r ss n] obtain names where
    l: "last (printer h') = Node (ExportDeclaration (TypeAliasGenericUnion ident
              (map TSTypeReference names)))"
    and m: "map (\<lambda>v. map_option (\<lambda>seg. nameFromScopeStack D (scopeStack h @ [seg]))
                  (variantScopeSegment v)) ?vs
             = map Some names"
    by blast
  have "distinct names" by (rule sibling_names_distinct[OF m ds])
  with r l m show "\<exists>names p h'.
           handleFieldSelectionSetValue (getPropertiesForVariant fuel D) D ident field h
             = Some (Inr (p, h'))
         \<and> last (printer h') = Node (ExportDeclaration (TypeAliasGenericUnion ident
              (map TSTypeReference names)))
         \<and> map (\<lambda>v. map_option (\<lambda>seg. nameFromScopeStack D (scopeStack h @ [seg]))
                  (variantScopeSegment v)) ?vs
             = map Some names
         \<and> distinct names"
    by blast
next
  show "partitionsPossibleTypes ss (variantsFor ss)"
    by (rule variantsFor_partitions)
next
  assume "inj_on typeToString (set (possibleTypes ss))"
  with variantsFor_partitions show "distinct (map variantScopeSegment (variantsFor ss))"
    by (rule partition_segments_distinct)
next
  assume "list_all (\<lambda>t. case t of GraphQLObjectType n \<Rightarrow> True | _ \<Rightarrow> False) ts"
  then show "inj_on typeToString (set ts)"
    by (rule object_type_names_inj)
qed

lemma result_type_names_inj: "inj_on typeToString (set (possibleTypes resultSelections))"
  by (simp add: resultSelections_def tSuccess_def tFailure_def)

theorem sibling_variant_names_distinct_witness:
  "partitioning exampleDeps \<and> decreasing exampleDeps weightVariant
 \<and> inj_on typeToString (set (possibleTypes resultSelections))
 \<and> exhaustiveVariants (typeCaseForSelectionSet exampleDeps resultSelections
      (mergeInFieldsFromFragmentSpreads (options (genContext outerGenerator))))
    = [successVariant, failureVariant]
 \<and> weightVariant successVariant < 3 \<and> weightVariant failureVariant < 3
 \<and> fragSelectionSet exampleFragment = resultSelections
 \<and> (\<exists>g'. interfacesForFragment 3 exampleDeps exampleFragment outerGenerator = Some (Inr ((), g'))
        \<and> last (printer g') = Node (ExportDeclaration (TypeAliasGenericUnion ''Outer_Outcome''
             [TSTypeReference ''Outer_Outcome_Success'', TSTypeReference ''Outer_Outcome_Failure''])))
 \<and> fieldSelectionSet resultField = Some resultSelections
 \<and> (\<exists>p g'. handleFieldSelectionSetValue (getPropertiesForVariant 3 exampleDeps) exampleDeps
               ''Outer_result'' resultField outerGenerator = Some (Inr (p, g'))
        \<and> last (printer g') = Node (ExportDeclaration (TypeAliasGenericUnion ''Outer_result''
             [TSTypeReference ''Outer_Success'', TSTypeReference ''Outer_Failure''])))
 \<and> map variantScopeSegment (variantsFor resultSelections) = [Some ''Success'', Some ''Failure'']
 \<and> distinct (map variantScopeSegment (variantsFor resultSelections))
 \<and> inj_on typeToString (set [tSuccess, tFailure])"
proof -
  note p = partitioning_exampleDeps
  note d = decreasing_exampleDeps
  note inj = result_type_names_inj
  have fs: "fragSelectionSet exampleFragment = resultSelections"
    by (simp add: exampleFragment_def)
  have rs: "fieldSelectionSet resultField = Some resultSelections"
    by (simp add: resultField_def)
  have st: "scopeStack outerGenerator = [''Outer'']"
    by (simp add: outerGenerator_def scopeStackPush_def newGenerator_def)
  have fn: "fragmentName exampleFragment = ''Outcome''"
    by (simp add: exampleFragment_def)
  have sep: "scopeSeparator exampleDeps = ''_''"
    by (simp add: exampleDeps_def)
  have w: "weightVariant successVariant < 3" "weightVariant failureVariant < 3"
    by (simp_all add: weight_result_variants)
  have prem1: "partitioning exampleDeps \<and> decreasing exampleDeps weightVariant
      \<and> inj_on typeToString (set (possibleTypes (fragSelectionSet exampleFragment)))
      \<and> list_all (\<lambda>v. weightVariant v < 3)
           (exhaustiveVariants (typeCaseForSelectionSet exampleDeps (fragSelectionSet exampleFragment)
              (mergeInFieldsFromFragmentSpreads (options (genContext outerGenerator)))))
      \<and> length (exhaustiveVariants (typeCaseForSelectionSet exampleDeps (fragSelectionSet exampleFragment)
            (mergeInFieldsFromFragmentSpreads (options (genContext outerGenerator))))) \<noteq> 1"
    unfolding fs result_variants by (simp add: p d inj w)
  have prem2: "partitioning exampleDeps \<and> decreasing exampleDeps weightVariant
      \<and> fieldSelectionSet resultField = Some resultSelections
      \<and> inj_on typeToString (set (possibleTypes resultSelections))
      \<and> list_all (\<lambda>v. weightVariant v < 3)
           (exhaustiveVariants (typeCaseForSelectionSet exampleDeps resultSelections
              (mergeInFieldsFromFragmentSpreads (options (genContext outerGenerator)))))
      \<and> length (exhaustiveVariants (typeCaseForSelectionSet exampleDeps resultSelections
            (mergeInFieldsFromFragmentSpreads (options (genContext outerGenerator))))) \<noteq> 1"
    unfolding result_variants by (simp add: p d inj w rs)
  note inst = sibling_variant_names_distinct[where D = exampleDeps and \<mu> = weightVariant
      and fuel = 3 and fragment = exampleFragment and g = outerGenerator
      and field = resultField and selectionSet = resultSelections and h = outerGenerator
      and ident = "''Outer_result''" and ss = resultSelections and ts = "[tSuccess, tFailure]"]
  from inst[THEN conjunct1, THEN mp, OF prem1] obtain names1 g1 where
    1: "interfacesForFragment 3 exampleDeps exampleFragment outerGenerator = Some (Inr ((), g1))"
    and a: "last (printer g1) = Node (ExportDeclaration (TypeAliasGenericUnion
              (nameFromScopeStack exampleDeps (scopeStack outerGenerator @ [fragmentName exampleFragment]))
              (map TSTypeReference names1)))"
    and b: "map (\<lambda>v. map_option
                  (\<lambda>seg. nameFromScopeStack exampleDeps
                     ((scopeStack outerGenerator @ [fragmentName exampleFragment]) @ [seg]))
                  (variantScopeSegment v))
               (exhaustiveVariants (typeCaseForSelectionSet exampleDeps (fragSelectionSet exampleFragment)
                  (mergeInFieldsFromFragmentSpreads (options (genContext outerGenerator)))))
             = map Some names1"
    by blast
  from b have "map Some names1 = map Some [''Outer_Outcome_Success'', ''Outer_Outcome_Failure'']"
    unfolding fs result_variants st fn
    by (simp add: variantScopeSegment_def successVariant_def failureVariant_def js_first_def
        tSuccess_def tFailure_def nameFromScopeStack_def sep)
  then have n1: "names1 = [''Outer_Outcome_Success'', ''Outer_Outcome_Failure'']"
    by (simp only: inj_map_eq_map[OF inj_Some])
  from inst[THEN conjunct2, THEN conjunct1, THEN mp, OF prem2] obtain names2 p2 g2 where
    2: "handleFieldSelectionSetValue (getPropertiesForVariant 3 exampleDeps) exampleDeps
         ''Outer_result'' resultField outerGenerator = Some (Inr (p2, g2))"
    and c: "last (printer g2) = Node (ExportDeclaration (TypeAliasGenericUnion ''Outer_result''
              (map TSTypeReference names2)))"
    and e: "map (\<lambda>v. map_option (\<lambda>seg. nameFromScopeStack exampleDeps (scopeStack outerGenerator @ [seg]))
                  (variantScopeSegment v))
               (exhaustiveVariants (typeCaseForSelectionSet exampleDeps resultSelections
                  (mergeInFieldsFromFragmentSpreads (options (genContext outerGenerator)))))
             = map Some names2"
    by blast
  from e have "map Some names2 = map Some [''Outer_Success'', ''Outer_Failure'']"
    unfolding result_variants st
    by (simp add: variantScopeSegment_def successVariant_def failureVariant_def js_first_def
        tSuccess_def tFailure_def nameFromScopeStack_def sep)
  then have n2: "names2 = [''Outer_Success'', ''Outer_Failure'']"
    by (simp only: inj_map_eq_map[OF inj_Some])
  have A: "\<exists>g'. interfacesForFragment 3 exampleDeps exampleFragment outerGenerator = Some (Inr ((), g'))
        \<and> last (printer g') = Node (ExportDeclaration (TypeAliasGenericUnion ''Outer_Outcome''
             [TSTypeReference ''Outer_Outcome_Success'', TSTypeReference ''Outer_Outcome_Failure'']))"
    using 1 a unfolding n1 st fn by (simp add: nameFromScopeStack_def sep)
  have B: "\<exists>p g'. handleFieldSelectionSetValue (getPropertiesForVariant 3 exampleDeps) exampleDeps
               ''Outer_result'' resultField outerGenerator = Some (Inr (p, g'))
        \<and> last (printer g') = Node (ExportDeclaration (TypeAliasGenericUnion ''Outer_result''
             [TSTypeReference ''Outer_Success'', TSTypeReference ''Outer_Failure'']))"
    using 2 c unfolding n2 by auto
  have C: "map variantScopeSegment (variantsFor resultSelections) = [Some ''Success'', Some ''Failure'']"
    unfolding variantsFor_resultSelections by (rule result_segments)
  have E: "distinct (map variantScopeSegment (variantsFor resultSelections))"
    using inst[THEN conjunct2, THEN conjunct2, THEN conjunct2, THEN conjunct1] inj by blast
  have F: "inj_on typeToString (set [tSuccess, tFailure])"
    using inst[THEN conjunct2, THEN conjunct2, THEN conjunct2, THEN conjunct2]
    by (simp add: tSuccess_def tFailure_def)
  from p d inj result_variants w fs A rs B C E F show ?thesis by blast
qed

section \<open>Proofs: generate.ts\<close>

lemma bindS_Inl: "m s = (Inl e, s') \<Longrightarrow> bindS m k s = (Inl e, s')"
  by (simp add: bindS_def)

lemma bindS_Inr: "m s = (Inr x, s') \<Longrightarrow> bindS m k s = k x s'"
  by (simp add: bindS_def)

lemma liftS_apply [simp]: "liftS r s = (r, s)"
  by (simp add: liftS_def)

lemma quietI:
  "(\<And>s r s'. m s = (r, s') \<Longrightarrow> callerOptions s' = callerOptions s
       \<and> filter isCompileCall (calls s') = filter isCompileCall (calls s)) \<Longrightarrow> quiet m"
  unfolding quiet_def by blast

lemma quietD:
  "quiet m \<Longrightarrow> m s = (r, s') \<Longrightarrow> callerOptions s' = callerOptions s
       \<and> filter isCompileCall (calls s') = filter isCompileCall (calls s)"
  unfolding quiet_def by blast

lemma quiet_returnS: "quiet (returnS x)"
  by (simp add: quiet_def returnS_def)

lemma quiet_liftS: "quiet (liftS r)"
  by (simp add: quiet_def)

lemma quiet_addWritten: "quiet (addWritten n)"
  by (simp add: quiet_def addWritten_def)

lemma quiet_console_log: "quiet (console_log output)"
  by (auto simp: quiet_def console_log_def isCompileCall_def)

lemma quiet_mkdirSync: "quiet (fs_mkdirSync D path)"
  by (auto simp: quiet_def fs_mkdirSync_def Let_def isCompileCall_def split: sum.splits)

lemma quiet_writeFileSync: "quiet (fs_writeFileSync D path data)"
  by (auto simp: quiet_def fs_writeFileSync_def Let_def isCompileCall_def split: sum.splits)

lemma quiet_bindS:
  assumes m: "quiet m" and k: "\<And>x. quiet (k x)"
  shows "quiet (bindS m k)"
proof (rule quietI)
  fix s r s'
  assume b: "bindS m k s = (r, s')"
  obtain r1 s1 where ms: "m s = (r1, s1)" by (cases "m s")
  note q1 = quietD[OF m ms]
  show "callerOptions s' = callerOptions s
       \<and> filter isCompileCall (calls s') = filter isCompileCall (calls s)"
  proof (cases r1)
    case (Inl e)
    with b ms have "s' = s1" by (simp add: bindS_def)
    with q1 show ?thesis by simp
  next
    case (Inr x)
    with b ms have "k x s1 = (r, s')" by (simp add: bindS_def)
    from quietD[OF k this] q1 show ?thesis by simp
  qed
qed

lemma quiet_if: "quiet m \<Longrightarrow> quiet n \<Longrightarrow> quiet (\<lambda>s. if P s then m s else n s)"
  by (auto simp: quiet_def)

lemma quiet_forEachS: "(\<And>x. quiet (f x)) \<Longrightarrow> quiet (forEachS f xs)"
  by (induction xs) (auto intro: quiet_returnS quiet_bindS)

lemma quiet_writeGeneratedFiles: "quiet (writeGeneratedFiles D files dir)"
  unfolding writeGeneratedFiles_def
  by (rule quiet_forEachS) (auto intro: quiet_writeFileSync)

lemma quiet_writeOperationIdsMap: "quiet (writeOperationIdsMap D ctx)"
  unfolding writeOperationIdsMap_def Let_def
  by (auto intro: quiet_liftS quiet_writeFileSync split: option.splits)

lemma quiet_ensureOutputDirectory: "quiet (ensureOutputDirectory D outputPath)"
proof -
  have "ensureOutputDirectory D outputPath
      = (\<lambda>s. if length (js_split CHR ''.'' outputPath) \<le> 1 \<and> \<not> existsSync D (fileSystem s) outputPath
              then fs_mkdirSync D outputPath s else returnS () s)"
    by (rule ext) (simp add: ensureOutputDirectory_def)
  then show ?thesis
    by (simp only:) (intro quiet_if quiet_mkdirSync quiet_returnS)
qed

lemma quiet_collectNextToSources: "quiet (collectNextToSources D outputPath common files outFiles)"
proof (induction files arbitrary: outFiles)
  case Nil
  then show ?case by (simp add: quiet_returnS)
next
  case (Cons f fs)
  show ?case
    unfolding collectNextToSources.simps Let_def
    by (intro quiet_bindS quiet_if quiet_mkdirSync quiet_returnS Cons.IH)
qed

lemma quiet_swift_write:
  "quiet (bindS (liftS (generateSwiftSource D context' b only))
            (\<lambda>generator.
               bindS
                 (if b then
                    bindS (writeGeneratedFiles D (swiftGeneratedFiles generator) outputPath)
                      (\<lambda>u. addWritten (length (swiftGeneratedFiles generator)))
                  else
                    bindS (fs_writeFileSync D outputPath (Some (swiftOutput generator)))
                      (\<lambda>u. addWritten 1))
                 (\<lambda>u s. if generateOperationIds (callerOptions s) then
                           bindS (writeOperationIdsMap D context') (\<lambda>u. addWritten 1) s
                         else returnS () s)))"
proof (intro quiet_bindS quiet_liftS)
  fix generator
  show "quiet (if b then
                    bindS (writeGeneratedFiles D (swiftGeneratedFiles generator) outputPath)
                      (\<lambda>u. addWritten (length (swiftGeneratedFiles generator)))
                  else
                    bindS (fs_writeFileSync D outputPath (Some (swiftOutput generator)))
                      (\<lambda>u. addWritten 1))"
    by (cases b) (simp_all add: quiet_bindS quiet_writeGeneratedFiles quiet_writeFileSync
        quiet_addWritten)
next
  fix generator and u :: unit
  show "quiet (\<lambda>s. if generateOperationIds (callerOptions s) then
                           bindS (writeOperationIdsMap D context') (\<lambda>u. addWritten 1) s
                         else returnS () s)"
    by (intro quiet_if quiet_bindS quiet_writeOperationIdsMap quiet_addWritten quiet_returnS)
qed

lemma quiet_swift_rest:
  "quiet (\<lambda>s.
            (let outputIndividualFiles =
                   (existsSync D (fileSystem s) outputPath \<and> isDirectory D (fileSystem s) outputPath)
             in bindS (liftS (generateSwiftSource D context' outputIndividualFiles only))
                  (\<lambda>generator.
                     bindS
                       (if outputIndividualFiles then
                          bindS (writeGeneratedFiles D (swiftGeneratedFiles generator) outputPath)
                            (\<lambda>u. addWritten (length (swiftGeneratedFiles generator)))
                        else
                          bindS (fs_writeFileSync D outputPath (Some (swiftOutput generator)))
                            (\<lambda>u. addWritten 1))
                       (\<lambda>u s. if generateOperationIds (callerOptions s) then
                                 bindS (writeOperationIdsMap D context') (\<lambda>u. addWritten 1) s
                               else returnS () s)))
              s)"
proof (rule quietI)
  fix s r s'
  assume "(let outputIndividualFiles =
                   (existsSync D (fileSystem s) outputPath \<and> isDirectory D (fileSystem s) outputPath)
             in bindS (liftS (generateSwiftSource D context' outputIndividualFiles only))
                  (\<lambda>generator.
                     bindS
                       (if outputIndividualFiles then
                          bindS (writeGeneratedFiles D (swiftGeneratedFiles generator) outputPath)
                            (\<lambda>u. addWritten (length (swiftGeneratedFiles generator)))
                        else
                          bindS (fs_writeFileSync D outputPath (Some (swiftOutput generator)))
                            (\<lambda>u. addWritten 1))
                       (\<lambda>u s. if generateOperationIds (callerOptions s) then
                                 bindS (writeOperationIdsMap D context') (\<lambda>u. addWritten 1) s
                               else returnS () s)))
              s = (r, s')"
  then show "callerOptions s' = callerOptions s
       \<and> filter isCompileCall (calls s') = filter isCompileCall (calls s)"
    unfolding Let_def by (rule quietD[OF quiet_swift_write])
qed

lemma quiet_typescript_rest:
  "quiet (\<lambda>s.
               if nextToSources then
                 bindS (collectNextToSources D outputPath common generatedFiles [])
                   (\<lambda>outFiles.
                      bindS (writeGeneratedFiles D outFiles (pathResolveDot D))
                        (\<lambda>u. addWritten (length outFiles)))
                   s
               else if existsSync D (fileSystem s) outputPath \<and> isDirectory D (fileSystem s) outputPath then
                 (let outFiles =
                        foldl (\<lambda>outFiles file.
                                 objectSet (fileName file) (content file @ common) outFiles)
                          [] generatedFiles
                  in bindS (writeGeneratedFiles D outFiles outputPath)
                       (\<lambda>u. addWritten (length outFiles)))
                   s
               else
                 bindS (fs_writeFileSync D outputPath
                          (Some (joinWith nl (map content generatedFiles) @ common)))
                   (\<lambda>u. addWritten 1)
                   s)"
  unfolding Let_def
  by (intro quiet_if quiet_bindS quiet_collectNextToSources quiet_writeGeneratedFiles
      quiet_addWritten quiet_writeFileSync)

lemma quiet_legacy_rest:
  "quiet (\<lambda>s. (if outputPath \<noteq> [] then
                 bindS (fs_writeFileSync D outputPath output) (\<lambda>u. addWritten 1)
               else console_log output) s)"
  by (auto intro!: quiet_bindS quiet_writeFileSync quiet_addWritten quiet_console_log)

lemma after_compile:
  assumes c: "m s = (r0, s\<lparr> calls := calls s @ [c] \<rparr>)" and ic: "isCompileCall c"
    and k: "\<And>x. quiet (k x)"
    and b: "bindS m k s = (r, s')"
  shows "callerOptions s' = callerOptions s
       \<and> filter isCompileCall (calls s') = filter isCompileCall (calls s) @ [c]"
proof (cases r0)
  case (Inl e)
  with b c have "s' = s\<lparr> calls := calls s @ [c] \<rparr>" by (simp add: bindS_def)
  with ic show ?thesis by simp
next
  case (Inr x)
  with b c have "k x (s\<lparr> calls := calls s @ [c] \<rparr>) = (r, s')" by (simp add: bindS_def)
  from quietD[OF k this] ic show ?thesis by simp
qed

lemma generateSwift_calls:
  assumes "generateSwift D schema document outputPath only s = (r, s')"
  shows "callerOptions s' = (callerOptions s)\<lparr> addTypename := Some True \<rparr>
       \<and> filter isCompileCall (calls s')
           = filter isCompileCall (calls s) @ [CompileToIR ((callerOptions s)\<lparr> addTypename := Some True \<rparr>)]"
proof -
  let ?s1 = "s\<lparr> callerOptions := (callerOptions s)\<lparr> addTypename := Some True \<rparr> \<rparr>"
  let ?c = "CompileToIR ((callerOptions s)\<lparr> addTypename := Some True \<rparr>)"
  from assms have b: "bindS (\<lambda>s. callCompileToIR D schema document (callerOptions s) s)
         (\<lambda>context' s.
            (let outputIndividualFiles =
                   (existsSync D (fileSystem s) outputPath \<and> isDirectory D (fileSystem s) outputPath)
             in bindS (liftS (generateSwiftSource D context' outputIndividualFiles only))
                  (\<lambda>generator.
                     bindS
                       (if outputIndividualFiles then
                          bindS (writeGeneratedFiles D (swiftGeneratedFiles generator) outputPath)
                            (\<lambda>u. addWritten (length (swiftGeneratedFiles generator)))
                        else
                          bindS (fs_writeFileSync D outputPath (Some (swiftOutput generator)))
                            (\<lambda>u. addWritten 1))
                       (\<lambda>u s. if generateOperationIds (callerOptions s) then
                                 bindS (writeOperationIdsMap D context') (\<lambda>u. addWritten 1) s
                               else returnS () s)))
              s) ?s1 = (r, s')"
    unfolding generateSwift_def by (simp add: bindS_def returnS_def)
  have c: "callCompileToIR D schema document (callerOptions ?s1) ?s1
             = (compileToIR D schema document (callerOptions ?s1), ?s1\<lparr> calls := calls ?s1 @ [?c] \<rparr>)"
    by (simp add: callCompileToIR_def)
  have ic: "isCompileCall ?c" by (simp add: isCompileCall_def)
  from after_compile[where m = "\<lambda>s. callCompileToIR D schema document (callerOptions s) s",
      OF c ic quiet_swift_rest b]
  show ?thesis by simp
qed

lemma generateFlowOrTypescript_calls:
  assumes "generateFlowOrTypescript D schema document outputPath target nextToSources s = (r, s')"
  shows "callerOptions s' = callerOptions s
       \<and> filter isCompileCall (calls s')
           = filter isCompileCall (calls s) @ [CompileToIR (callerOptions s)]"
proof -
  let ?c = "CompileToIR (callerOptions s)"
  have c: "callCompileToIR D schema document (callerOptions s) s
             = (compileToIR D schema document (callerOptions s), s\<lparr> calls := calls s @ [?c] \<rparr>)"
    by (simp add: callCompileToIR_def)
  have ic: "isCompileCall ?c" by (simp add: isCompileCall_def)
  have k: "quiet (bindS (liftS (if target = ''flow'' then generateFlowSource D context'
                        else generateTypescriptSource D context'))
            (\<lambda>(generatedFiles, common) s.
               if nextToSources then
                 bindS (collectNextToSources D outputPath common generatedFiles [])
                   (\<lambda>outFiles.
                      bindS (writeGeneratedFiles D outFiles (pathResolveDot D))
                        (\<lambda>u. addWritten (length outFiles)))
                   s
               else if existsSync D (fileSystem s) outputPath \<and> isDirectory D (fileSystem s) outputPath then
                 (let outFiles =
                        foldl (\<lambda>outFiles file.
                                 objectSet (fileName file) (content file @ common) outFiles)
                          [] generatedFiles
                  in bindS (writeGeneratedFiles D outFiles outputPath)
                       (\<lambda>u. addWritten (length outFiles)))
                   s
               else
                 bindS (fs_writeFileSync D outputPath
                          (Some (joinWith nl (map content generatedFiles) @ common)))
                   (\<lambda>u. addWritten 1)
                   s))" for context'
    by (rule quiet_bindS[OF quiet_liftS]) (simp add: split_def quiet_typescript_rest)
  from after_compile[where m = "\<lambda>s. callCompileToIR D schema document (callerOptions s) s",
      OF c ic k assms[unfolded generateFlowOrTypescript_def]]
  show ?thesis .
qed

lemma generateLegacy_calls:
  assumes "generateLegacy D schema document outputPath target s = (r, s')"
  shows "callerOptions s' = callerOptions s
       \<and> filter isCompileCall (calls s')
           = filter isCompileCall (calls s) @ [CompileToLegacyIR (callerOptions s)]"
proof -
  let ?c = "CompileToLegacyIR (callerOptions s)"
  have c: "callCompileToLegacyIR D schema document (callerOptions s) s
             = (compileToLegacyIR D schema document (callerOptions s), s\<lparr> calls := calls s @ [?c] \<rparr>)"
    by (simp add: callCompileToLegacyIR_def)
  have ic: "isCompileCall ?c" by (simp add: isCompileCall_def)
  have k: "quiet (bindS (liftS
                   (if target = ''json'' then map_sum id Some (serializeToJSON D context')
                    else if target = ''ts-legacy'' \<or> target = ''typescript-legacy''
                      then map_sum id Some (generateTypescriptLegacySource D context')
                    else if target = ''flow-legacy''
                      then map_sum id Some (generateFlowLegacySource D context')
                    else if target = ''scala''
                      then map_sum id Some (generateScalaSource D context')
                    else Inr None))
            (\<lambda>output.
               if outputPath \<noteq> [] then
                 bindS (fs_writeFileSync D outputPath output) (\<lambda>u. addWritten 1)
               else console_log output))" for context'
    by (rule quiet_bindS[OF quiet_liftS])
      (auto intro!: quiet_bindS quiet_writeFileSync quiet_addWritten quiet_console_log)
  from after_compile[where m = "\<lambda>s. callCompileToLegacyIR D schema document (callerOptions s) s",
      OF c ic k assms[unfolded generateLegacy_def]]
  show ?thesis .
qed

lemma ensureOutputDirectory_effect:
  assumes "ensureOutputDirectory D outputPath s = (r, s1)"
  shows "writtenFiles s1 = writtenFiles s \<and> callerOptions s1 = callerOptions s
       \<and> filter isWriteFileSync (calls s1) = filter isWriteFileSync (calls s)
       \<and> filter isCompileCall (calls s1) = filter isCompileCall (calls s)"
  using assms
  by (auto simp: ensureOutputDirectory_def fs_mkdirSync_def returnS_def Let_def
      isWriteFileSync_def isCompileCall_def split: if_splits sum.splits)

lemma generate_after_prelude:
  assumes "loadAndMergeQueryDocuments D inputPaths tagName = Inr document"
    and "validateQueryDocument D schema document = Inr ()"
    and "ensureOutputDirectory D outputPath (s0\<lparr> writtenFiles := 0 \<rparr>) = (Inr (), s1)"
  shows "generate D inputPaths schema outputPath only target tagName nextToSources s0
       = bindS (generateForTarget D schema document outputPath only target nextToSources)
           (\<lambda>u s. returnS (writtenFiles s) s) s1"
  using assms by (simp add: generate_def bindS_def)

lemma snd_bindS_return:
  "m s = (r, s') \<Longrightarrow> snd (bindS m (\<lambda>u s. returnS (f s) s) s) = s'"
  by (cases r) (simp_all add: bindS_def returnS_def)

lemma generateForTarget_calls:
  assumes "generateForTarget D schema document outputPath only target nextToSources s = (r, s')"
  shows "filter isCompileCall (calls s')
           = filter isCompileCall (calls s) @
               [if target = ''swift'' then CompileToIR ((callerOptions s)\<lparr> addTypename := Some True \<rparr>)
                else if target = ''flow'' \<or> target = ''typescript'' \<or> target = ''ts''
                  then CompileToIR (callerOptions s)
                else CompileToLegacyIR (callerOptions s)]
       \<and> callerOptions s'
           = (if target = ''swift'' then (callerOptions s)\<lparr> addTypename := Some True \<rparr>
              else callerOptions s)"
proof (cases "target = ''swift''")
  case True
  with assms have "generateSwift D schema document outputPath only s = (r, s')"
    by (simp add: generateForTarget_def)
  from generateSwift_calls[OF this] True show ?thesis by simp
next
  case False
  show ?thesis
  proof (cases "target = ''flow'' \<or> target = ''typescript'' \<or> target = ''ts''")
    case True
    with False assms have
      "generateFlowOrTypescript D schema document outputPath target nextToSources s = (r, s')"
      by (simp add: generateForTarget_def)
    from generateFlowOrTypescript_calls[OF this] True False show ?thesis by simp
  next
    case nt: False
    with False assms have "generateLegacy D schema document outputPath target s = (r, s')"
      by (simp add: generateForTarget_def)
    from generateLegacy_calls[OF this] nt False show ?thesis by simp
  qed
qed

lemma keepsCallsI:
  "(\<And>s r s'. m s = (r, s') \<Longrightarrow> set (calls s) \<subseteq> set (calls s')) \<Longrightarrow> keepsCalls m"
  unfolding keepsCalls_def by blast

lemma keepsCallsD: "keepsCalls m \<Longrightarrow> m s = (r, s') \<Longrightarrow> set (calls s) \<subseteq> set (calls s')"
  unfolding keepsCalls_def by blast

lemma recordsCallD: "recordsCall c m \<Longrightarrow> m s = (r, s') \<Longrightarrow> c \<in> set (calls s')"
  unfolding recordsCall_def by blast

lemma keeps_returnS: "keepsCalls (returnS x)"
  by (simp add: keepsCalls_def returnS_def)

lemma keeps_liftS: "keepsCalls (liftS r)"
  by (simp add: keepsCalls_def)

lemma keeps_addWritten: "keepsCalls (addWritten n)"
  by (simp add: keepsCalls_def addWritten_def)

lemma keeps_console_log: "keepsCalls (console_log output)"
  by (auto simp: keepsCalls_def console_log_def)

lemma keeps_mkdirSync: "keepsCalls (fs_mkdirSync D path)"
  by (auto simp: keepsCalls_def fs_mkdirSync_def Let_def split: sum.splits)

lemma keeps_writeFileSync: "keepsCalls (fs_writeFileSync D path data)"
  by (auto simp: keepsCalls_def fs_writeFileSync_def Let_def split: sum.splits)

lemma keeps_bindS:
  assumes m: "keepsCalls m" and k: "\<And>x. keepsCalls (k x)"
  shows "keepsCalls (bindS m k)"
proof (rule keepsCallsI)
  fix s r s'
  assume b: "bindS m k s = (r, s')"
  obtain r1 s1 where ms: "m s = (r1, s1)" by (cases "m s")
  note q1 = keepsCallsD[OF m ms]
  show "set (calls s) \<subseteq> set (calls s')"
  proof (cases r1)
    case (Inl e)
    with b ms have "s' = s1" by (simp add: bindS_def)
    with q1 show ?thesis by simp
  next
    case (Inr x)
    with b ms have "k x s1 = (r, s')" by (simp add: bindS_def)
    from keepsCallsD[OF k this] q1 show ?thesis by blast
  qed
qed

lemma keeps_if: "keepsCalls m \<Longrightarrow> keepsCalls n \<Longrightarrow> keepsCalls (\<lambda>s. if P s then m s else n s)"
  by (auto simp: keepsCalls_def)

lemma keeps_forEachS: "(\<And>x. keepsCalls (f x)) \<Longrightarrow> keepsCalls (forEachS f xs)"
  by (induction xs) (auto intro: keeps_returnS keeps_bindS)

lemma keeps_writeGeneratedFiles: "keepsCalls (writeGeneratedFiles D files dir)"
  unfolding writeGeneratedFiles_def
  by (rule keeps_forEachS) (auto intro: keeps_writeFileSync)

lemma keeps_writeOperationIdsMap: "keepsCalls (writeOperationIdsMap D ctx)"
  unfolding writeOperationIdsMap_def Let_def
  by (auto intro: keeps_liftS keeps_writeFileSync split: option.splits)

lemma records_writeFileSync: "recordsCall (WriteFileSync path data) (fs_writeFileSync D path data)"
  by (auto simp: recordsCall_def fs_writeFileSync_def Let_def split: sum.splits)

lemma records_console_log: "recordsCall (ConsoleLog output) (console_log output)"
  by (auto simp: recordsCall_def console_log_def)

lemma records_bindS:
  assumes m: "recordsCall c m" and k: "\<And>x. keepsCalls (k x)"
  shows "recordsCall c (bindS m k)"
  unfolding recordsCall_def
proof (intro allI impI)
  fix s r s'
  assume b: "bindS m k s = (r, s')"
  obtain r1 s1 where ms: "m s = (r1, s1)" by (cases "m s")
  note q1 = recordsCallD[OF m ms]
  show "c \<in> set (calls s')"
  proof (cases r1)
    case (Inl e)
    with b ms have "s' = s1" by (simp add: bindS_def)
    with q1 show ?thesis by simp
  next
    case (Inr x)
    with b ms have "k x s1 = (r, s')" by (simp add: bindS_def)
    from keepsCallsD[OF k this] q1 show ?thesis by blast
  qed
qed

lemma keeps_operationIds:
  "keepsCalls (\<lambda>s. if generateOperationIds (callerOptions s) then
                     bindS (writeOperationIdsMap D context') (\<lambda>u. addWritten 1) s
                   else returnS () s)"
  by (intro keeps_if keeps_bindS keeps_writeOperationIdsMap keeps_addWritten keeps_returnS)

lemma records_swift_single:
  "recordsCall (WriteFileSync outputPath (Some (swiftOutput generator)))
     (bindS (bindS (fs_writeFileSync D outputPath (Some (swiftOutput generator)))
               (\<lambda>u. addWritten 1))
        (\<lambda>u s. if generateOperationIds (callerOptions s) then
                  bindS (writeOperationIdsMap D context') (\<lambda>u. addWritten 1) s
                else returnS () s))"
  by (intro records_bindS records_writeFileSync keeps_addWritten keeps_operationIds)

lemma records_writeGeneratedFiles:
  "recordsCall (WriteFileSync (pathJoin D dir n) (Some out))
     (writeGeneratedFiles D ((n, out) # files) dir)"
  unfolding writeGeneratedFiles_def forEachS.simps
  by (rule records_bindS) (simp_all add: records_writeFileSync keeps_forEachS keeps_writeFileSync split_def)

lemma records_swift_individual:
  "recordsCall (WriteFileSync (pathJoin D outputPath n) (Some out))
     (bindS (bindS (writeGeneratedFiles D ((n, out) # files) outputPath)
               (\<lambda>u. addWritten m))
        (\<lambda>u s. if generateOperationIds (callerOptions s) then
                  bindS (writeOperationIdsMap D context') (\<lambda>u. addWritten 1) s
                else returnS () s))"
  by (intro records_bindS records_writeGeneratedFiles keeps_addWritten keeps_operationIds)

lemma generateSwift_result:
  assumes g: "generateSwift D schema document outputPath only s = (r, s')"
    and b: "b \<longleftrightarrow> existsSync D (fileSystem s) outputPath \<and> isDirectory D (fileSystem s) outputPath"
  shows "case compileToIR D schema document ((callerOptions s)\<lparr> addTypename := Some True \<rparr>) of
           Inl err \<Rightarrow> r = Inl err
         | Inr context' \<Rightarrow>
             (case generateSwiftSource D context' b only of
                Inl err \<Rightarrow> r = Inl err
              | Inr generator \<Rightarrow>
                  if b
                  then (case swiftGeneratedFiles generator of
                          [] \<Rightarrow> True
                        | (n, out) # rest \<Rightarrow>
                            WriteFileSync (pathJoin D outputPath n) (Some out) \<in> set (calls s'))
                  else WriteFileSync outputPath (Some (swiftOutput generator)) \<in> set (calls s'))"
proof (cases "compileToIR D schema document ((callerOptions s)\<lparr> addTypename := Some True \<rparr>)")
  case (Inl err)
  with g show ?thesis
    by (simp add: generateSwift_def bindS_def returnS_def callCompileToIR_def)
next
  case (Inr context')
  let ?s3 = "s\<lparr> callerOptions := (callerOptions s)\<lparr> addTypename := Some True \<rparr>,
               calls := calls s @ [CompileToIR ((callerOptions s)\<lparr> addTypename := Some True \<rparr>)] \<rparr>"
  show ?thesis
  proof (cases "generateSwiftSource D context' b only")
    case err: (Inl err)
    with g Inr show ?thesis
      by (simp add: generateSwift_def bindS_def returnS_def callCompileToIR_def Let_def b[symmetric])
  next
    case gen: (Inr generator)
    from g Inr gen have k:
      "bindS
         (if b then
            bindS (writeGeneratedFiles D (swiftGeneratedFiles generator) outputPath)
              (\<lambda>u. addWritten (length (swiftGeneratedFiles generator)))
          else
            bindS (fs_writeFileSync D outputPath (Some (swiftOutput generator)))
              (\<lambda>u. addWritten 1))
         (\<lambda>u s. if generateOperationIds (callerOptions s) then
                   bindS (writeOperationIdsMap D context') (\<lambda>u. addWritten 1) s
                 else returnS () s) ?s3 = (r, s')"
      by (simp add: generateSwift_def bindS_def returnS_def callCompileToIR_def Let_def b[symmetric])
    show ?thesis
    proof (cases b)
      case False
      with k have "WriteFileSync outputPath (Some (swiftOutput generator)) \<in> set (calls s')"
        using recordsCallD[OF records_swift_single] by auto
      with Inr gen False show ?thesis by simp
    next
      case True
      show ?thesis
      proof (cases "swiftGeneratedFiles generator")
        case Nil
        with Inr gen True show ?thesis by simp
      next
        case (Cons f fs)
        obtain n out where f: "f = (n, out)" by (cases f)
        from k True Cons f have
          "WriteFileSync (pathJoin D outputPath n) (Some out) \<in> set (calls s')"
          using recordsCallD[OF records_swift_individual] by auto
        with Inr gen True Cons f show ?thesis by simp
      qed
    qed
  qed
qed

lemma generateFlowOrTypescript_result:
  assumes g: "generateFlowOrTypescript D schema document outputPath target nextToSources s = (r, s')"
    and b: "b \<longleftrightarrow> existsSync D (fileSystem s) outputPath \<and> isDirectory D (fileSystem s) outputPath"
  shows "case compileToIR D schema document (callerOptions s) of
           Inl err \<Rightarrow> r = Inl err
         | Inr context' \<Rightarrow>
             (case (if target = ''flow'' then generateFlowSource D context'
                    else generateTypescriptSource D context') of
                Inl err \<Rightarrow> r = Inl err
              | Inr (generatedFiles, common) \<Rightarrow>
                  \<not> nextToSources \<and> \<not> b \<longrightarrow>
                    WriteFileSync outputPath
                      (Some (joinWith nl (map content generatedFiles) @ common)) \<in> set (calls s'))"
proof (cases "compileToIR D schema document (callerOptions s)")
  case (Inl err)
  with g show ?thesis
    by (simp add: generateFlowOrTypescript_def bindS_def callCompileToIR_def)
next
  case (Inr context')
  let ?s1 = "s\<lparr> calls := calls s @ [CompileToIR (callerOptions s)] \<rparr>"
  show ?thesis
  proof (cases "if target = ''flow'' then generateFlowSource D context'
                else generateTypescriptSource D context'")
    case err: (Inl err)
    with g Inr show ?thesis
      by (simp add: generateFlowOrTypescript_def bindS_def callCompileToIR_def)
  next
    case gen: (Inr fc)
    obtain generatedFiles common where fc: "fc = (generatedFiles, common)" by (cases fc)
    have "WriteFileSync outputPath (Some (joinWith nl (map content generatedFiles) @ common))
            \<in> set (calls s')" if n: "\<not> nextToSources" and nb: "\<not> b"
      using g Inr gen fc n nb
      by (auto simp: generateFlowOrTypescript_def bindS_def callCompileToIR_def b
          fs_writeFileSync_def addWritten_def Let_def split: sum.splits)
    with Inr gen fc show ?thesis by simp
  qed
qed

lemma generateLegacy_result:
  assumes g: "generateLegacy D schema document outputPath target s = (r, s')"
  shows "case compileToLegacyIR D schema document (callerOptions s) of
           Inl err \<Rightarrow> r = Inl err
         | Inr context' \<Rightarrow>
             (case (if target = ''json'' then map_sum id Some (serializeToJSON D context')
                    else if target = ''ts-legacy'' \<or> target = ''typescript-legacy''
                      then map_sum id Some (generateTypescriptLegacySource D context')
                    else if target = ''flow-legacy''
                      then map_sum id Some (generateFlowLegacySource D context')
                    else if target = ''scala''
                      then map_sum id Some (generateScalaSource D context')
                    else Inr None) of
                Inl err \<Rightarrow> r = Inl err
              | Inr output \<Rightarrow>
                  if outputPath \<noteq> [] then WriteFileSync outputPath output \<in> set (calls s')
                  else ConsoleLog output \<in> set (calls s'))"
proof (cases "compileToLegacyIR D schema document (callerOptions s)")
  case (Inl err)
  with g show ?thesis
    by (simp add: generateLegacy_def bindS_def callCompileToLegacyIR_def)
next
  case (Inr context')
  let ?s1 = "s\<lparr> calls := calls s @ [CompileToLegacyIR (callerOptions s)] \<rparr>"
  let ?out = "if target = ''json'' then map_sum id Some (serializeToJSON D context')
              else if target = ''ts-legacy'' \<or> target = ''typescript-legacy''
                then map_sum id Some (generateTypescriptLegacySource D context')
              else if target = ''flow-legacy''
                then map_sum id Some (generateFlowLegacySource D context')
              else if target = ''scala''
                then map_sum id Some (generateScalaSource D context')
              else Inr None"
  from g Inr have k:
    "bindS (liftS ?out)
       (\<lambda>output. if outputPath \<noteq> [] then
                    bindS (fs_writeFileSync D outputPath output) (\<lambda>u. addWritten 1)
                  else console_log output) ?s1 = (r, s')"
    by (simp add: generateLegacy_def bindS_def callCompileToLegacyIR_def)
  show ?thesis
  proof (cases ?out)
    case err: (Inl err)
    with k have "r = Inl err" by (simp add: bindS_def)
    with Inr err show ?thesis by simp
  next
    case res: (Inr res)
    with k have k2: "(if outputPath \<noteq> [] then
                    bindS (fs_writeFileSync D outputPath res) (\<lambda>u. addWritten 1)
                  else console_log res) ?s1 = (r, s')"
      by (simp add: bindS_def)
    have "if outputPath \<noteq> [] then WriteFileSync outputPath res \<in> set (calls s')
          else ConsoleLog res \<in> set (calls s')"
    proof (cases "outputPath \<noteq> []")
      case True
      with k2 have "bindS (fs_writeFileSync D outputPath res) (\<lambda>u. addWritten 1) ?s1 = (r, s')"
        by simp
      then have "WriteFileSync outputPath res \<in> set (calls s')"
        by (rule recordsCallD[OF records_bindS[OF records_writeFileSync keeps_addWritten]])
      with True show ?thesis by simp
    next
      case False
      with k2 have "console_log res ?s1 = (r, s')" by simp
      then have "ConsoleLog res \<in> set (calls s')"
        by (rule recordsCallD[OF records_console_log])
      with False show ?thesis by simp
    qed
    with Inr res show ?thesis by simp
  qed
qed

lemma ensureOutputDirectory_callerOptions:
  assumes "ensureOutputDirectory D outputPath (s\<lparr> writtenFiles := 0 \<rparr>) = (r, s1)"
  shows "ensureOutputDirectory D outputPath ((s\<lparr> callerOptions := opts \<rparr>)\<lparr> writtenFiles := 0 \<rparr>)
           = (r, s1\<lparr> callerOptions := opts \<rparr>)"
  using assms
  by (auto simp: ensureOutputDirectory_def fs_mkdirSync_def returnS_def Let_def
      split: if_splits sum.splits)

lemma generateSwift_ignores_addTypename:
  "generateSwift D schema document outputPath only
     (s\<lparr> callerOptions := (callerOptions s)\<lparr> addTypename := x \<rparr> \<rparr>)
   = generateSwift D schema document outputPath only s"
  by (simp add: generateSwift_def bindS_def returnS_def)

lemma bindS_Inl_result:
  "m s = (Inl e, s') \<Longrightarrow> bindS m k s = (r, s'') \<Longrightarrow> r = Inl e \<and> s'' = s'"
  by (simp add: bindS_def)

lemma generate_result:
  assumes "generateForTarget D schema document outputPath only target nextToSources s1 = (r0, s2)"
    and "bindS (generateForTarget D schema document outputPath only target nextToSources)
           (\<lambda>u s. returnS (writtenFiles s) s) s1 = (r, s')"
  shows "s2 = s'" and "(r0 = Inl err) = (r = Inl err)"
  using assms by (cases r0; auto simp: bindS_def returnS_def)+

text \<open>
  C8.  Once loading, validation and the creation of the output directory have succeeded,
  \<open>generate\<close> calls a compiler exactly once.  For the target \<open>swift\<close> it first sets
  \<open>addTypename\<close> of the caller's options object to \<open>true\<close> and compiles with the options
  so changed; what \<open>compileToIR\<close> yields on those options is what \<open>generate\<close> goes on
  with: its error is the error of \<open>generate\<close>, and its context is the one handed to
  \<open>generateSwiftSource\<close>, whose error is propagated and whose output is written.  The
  run is the same whatever value of \<open>addTypename\<close> the caller supplied.  For every other
  target the compiler receives the caller's options as they are, its error or its
  context is used in the same way, and the options object is left unchanged.
\<close>

theorem swift_compiles_with_addTypename:
  assumes l: "loadAndMergeQueryDocuments D inputPaths tagName = Inr document"
    and v: "validateQueryDocument D schema document = Inr ()"
    and e: "ensureOutputDirectory D outputPath (s0\<lparr> writtenFiles := 0 \<rparr>) = (Inr (), s1)"
    and r: "generate D inputPaths schema outputPath only target tagName nextToSources s0 = (r, s')"
  shows "filter isCompileCall (calls s')
         = filter isCompileCall (calls s0) @
             [if target = ''swift'' then CompileToIR ((callerOptions s0)\<lparr> addTypename := Some True \<rparr>)
              else if target = ''flow'' \<or> target = ''typescript'' \<or> target = ''ts''
                then CompileToIR (callerOptions s0)
              else CompileToLegacyIR (callerOptions s0)]
       \<and> callerOptions s'
         = (if target = ''swift'' then (callerOptions s0)\<lparr> addTypename := Some True \<rparr>
            else callerOptions s0)
       \<and> (if target = ''swift'' then
             (case compileToIR D schema document ((callerOptions s0)\<lparr> addTypename := Some True \<rparr>) of
                Inl err \<Rightarrow> r = Inl err
              | Inr context' \<Rightarrow>
                  (case generateSwiftSource D context'
                          (existsSync D (fileSystem s1) outputPath \<and> isDirectory D (fileSystem s1) outputPath)
                          only of
                     Inl err \<Rightarrow> r = Inl err
                   | Inr generator \<Rightarrow>
                       if existsSync D (fileSystem s1) outputPath \<and> isDirectory D (fileSystem s1) outputPath
                       then (case swiftGeneratedFiles generator of
                               [] \<Rightarrow> True
                             | (n, out) # rest \<Rightarrow>
                                 WriteFileSync (pathJoin D outputPath n) (Some out) \<in> set (calls s'))
                       else WriteFileSync outputPath (Some (swiftOutput generator)) \<in> set (calls s')))
           else if target = ''flow'' \<or> target = ''typescript'' \<or> target = ''ts'' then
             (case compileToIR D schema document (callerOptions s0) of
                Inl err \<Rightarrow> r = Inl err
              | Inr context' \<Rightarrow>
                  (case (if target = ''flow'' then generateFlowSource D context'
                         else generateTypescriptSource D context') of
                     Inl err \<Rightarrow> r = Inl err
                   | Inr (generatedFiles, common) \<Rightarrow>
                       \<not> nextToSources
                       \<and> \<not> (existsSync D (fileSystem s1) outputPath \<and> isDirectory D (fileSystem s1) outputPath)
                       \<longrightarrow> WriteFileSync outputPath
                             (Some (joinWith nl (map content generatedFiles) @ common)) \<in> set (calls s')))
           else
             (case compileToLegacyIR D schema document (callerOptions s0) of
                Inl err \<Rightarrow> r = Inl err
              | Inr context' \<Rightarrow>
                  (case (if target = ''json'' then map_sum id Some (serializeToJSON D context')
                         else if target = ''ts-legacy'' \<or> target = ''typescript-legacy''
                           then map_sum id Some (generateTypescriptLegacySource D context')
                         else if target = ''flow-legacy''
                           then map_sum id Some (generateFlowLegacySource D context')
                         else if target = ''scala''
                           then map_sum id Some (generateScalaSource D context')
                         else Inr None) of
                     Inl err \<Rightarrow> r = Inl err
                   | Inr res \<Rightarrow>
                       if outputPath \<noteq> [] then WriteFileSync outputPath res \<in> set (calls s')
                       else ConsoleLog res \<in> set (calls s'))))
       \<and> (target = ''swift'' \<longrightarrow>
             generate D inputPaths schema outputPath only target tagName nextToSources
               (s0\<lparr> callerOptions := (callerOptions s0)\<lparr> addTypename := x \<rparr> \<rparr>) = (r, s'))"
proof -
  from ensureOutputDirectory_effect[OF e] have
    s1: "callerOptions s1 = callerOptions s0"
        "filter isCompileCall (calls s1) = filter isCompileCall (calls s0)"
    by simp_all
  from r have b: "bindS (generateForTarget D schema document outputPath only target nextToSources)
           (\<lambda>u s. returnS (writtenFiles s) s) s1 = (r, s')"
    unfolding generate_after_prelude[OF l v e] .
  obtain r0 s2 where
    t: "generateForTarget D schema document outputPath only target nextToSources s1 = (r0, s2)"
    by (cases "generateForTarget D schema document outputPath only target nextToSources s1")
  from generate_result[OF t b] have s2: "s2 = s'" and err: "\<And>err. (r0 = Inl err) = (r = Inl err)"
    by simp_all
  note t' = t[unfolded s2]
  have A: "filter isCompileCall (calls s')
         = filter isCompileCall (calls s0) @
             [if target = ''swift'' then CompileToIR ((callerOptions s0)\<lparr> addTypename := Some True \<rparr>)
              else if target = ''flow'' \<or> target = ''typescript'' \<or> target = ''ts''
                then CompileToIR (callerOptions s0)
              else CompileToLegacyIR (callerOptions s0)]"
    and B: "callerOptions s'
         = (if target = ''swift'' then (callerOptions s0)\<lparr> addTypename := Some True \<rparr>
            else callerOptions s0)"
    using generateForTarget_calls[OF t'] s1 by simp_all
  have C: "if target = ''swift'' then
             (case compileToIR D schema document ((callerOptions s0)\<lparr> addTypename := Some True \<rparr>) of
                Inl err \<Rightarrow> r = Inl err
              | Inr context' \<Rightarrow>
                  (case generateSwiftSource D context'
                          (existsSync D (fileSystem s1) outputPath \<and> isDirectory D (fileSystem s1) outputPath)
                          only of
                     Inl err \<Rightarrow> r = Inl err
                   | Inr generator \<Rightarrow>
                       if existsSync D (fileSystem s1) outputPath \<and> isDirectory D (fileSystem s1) outputPath
                       then (case swiftGeneratedFiles generator of
                               [] \<Rightarrow> True
                             | (n, out) # rest \<Rightarrow>
                                 WriteFileSync (pathJoin D outputPath n) (Some out) \<in> set (calls s'))
                       else WriteFileSync outputPath (Some (swiftOutput generator)) \<in> set (calls s')))
           else if target = ''flow'' \<or> target = ''typescript'' \<or> target = ''ts'' then
             (case compileToIR D schema document (callerOptions s0) of
                Inl err \<Rightarrow> r = Inl err
              | Inr context' \<Rightarrow>
                  (case (if target = ''flow'' then generateFlowSource D context'
                         else generateTypescriptSource D context') of
                     Inl err \<Rightarrow> r = Inl err
                   | Inr (generatedFiles, common) \<Rightarrow>
                       \<not> nextToSources
                       \<and> \<not> (existsSync D (fileSystem s1) outputPath \<and> isDirectory D (fileSystem s1) outputPath)
                       \<longrightarrow> WriteFileSync outputPath
                             (Some (joinWith nl (map content generatedFiles) @ common)) \<in> set (calls s')))
           else
             (case compileToLegacyIR D schema document (callerOptions s0) of
                Inl err \<Rightarrow> r = Inl err
              | Inr context' \<Rightarrow>
                  (case (if target = ''json'' then map_sum id Some (serializeToJSON D context')
                         else if target = ''ts-legacy'' \<or> target = ''typescript-legacy''
                           then map_sum id Some (generateTypescriptLegacySource D context')
                         else if target = ''flow-legacy''
                           then map_sum id Some (generateFlowLegacySource D context')
                         else if target = ''scala''
                           then map_sum id Some (generateScalaSource D context')
                         else Inr None) of
                     Inl err \<Rightarrow> r = Inl err
                   | Inr res \<Rightarrow>
                       if outputPath \<noteq> [] then WriteFileSync outputPath res \<in> set (calls s')
                       else ConsoleLog res \<in> set (calls s')))"
  proof (cases "target = ''swift''")
    case True
    with t' have g: "generateSwift D schema document outputPath only s1 = (r0, s')"
      by (simp add: generateForTarget_def)
    from True have c1: "(target = ''swift'') = True" by simp
    from generateSwift_result[OF g refl] show ?thesis
      unfolding c1 if_True s1 err .
  next
    case False
    show ?thesis
    proof (cases "target = ''flow'' \<or> target = ''typescript'' \<or> target = ''ts''")
      case True
      with False t' have
        g: "generateFlowOrTypescript D schema document outputPath target nextToSources s1 = (r0, s')"
        by (simp add: generateForTarget_def)
      from False have c1: "(target = ''swift'') = False" by simp
      from True have c2: "(target = ''flow'' \<or> target = ''typescript'' \<or> target = ''ts'') = True"
        by simp
      from generateFlowOrTypescript_result[OF g refl] show ?thesis
        unfolding c1 c2 if_True if_False s1 err .
    next
      case nt: False
      with False t' have g: "generateLegacy D schema document outputPath target s1 = (r0, s')"
        by (simp add: generateForTarget_def)
      from False have c1: "(target = ''swift'') = False" by simp
      from nt have c2: "(target = ''flow'' \<or> target = ''typescript'' \<or> target = ''ts'') = False"
        by simp
      from generateLegacy_result[OF g] show ?thesis
        unfolding c1 c2 if_False s1 err .
    qed
  qed
  have E: "generate D inputPaths schema outputPath only target tagName nextToSources
               (s0\<lparr> callerOptions := (callerOptions s0)\<lparr> addTypename := x \<rparr> \<rparr>) = (r, s')"
    if sw: "target = ''swift''"
  proof -
    let ?o = "(callerOptions s0)\<lparr> addTypename := x \<rparr>"
    have e': "ensureOutputDirectory D outputPath
                     ((s0\<lparr> callerOptions := ?o \<rparr>)\<lparr> writtenFiles := 0 \<rparr>)
            = (Inr (), s1\<lparr> callerOptions := ?o \<rparr>)"
      by (rule ensureOutputDirectory_callerOptions[OF e])
    have "generateSwift D schema document outputPath only (s1\<lparr> callerOptions := ?o \<rparr>)
            = generateSwift D schema document outputPath only s1"
      using generateSwift_ignores_addTypename[where D = D and s = s1 and x = x]
      by (simp add: s1)
    then have "bindS (generateForTarget D schema document outputPath only target nextToSources)
           (\<lambda>u s. returnS (writtenFiles s) s) (s1\<lparr> callerOptions := ?o \<rparr>)
         = bindS (generateForTarget D schema document outputPath only target nextToSources)
           (\<lambda>u s. returnS (writtenFiles s) s) s1"
      using sw by (simp add: generateForTarget_def bindS_def)
    with b show ?thesis
      unfolding generate_after_prelude[OF l v e'] by simp
  qed
  show ?thesis
    apply (intro conjI impI)
       apply (rule A)
      apply (rule B)
     apply (rule C)
    apply (erule E)
    done
qed

lemma generateForTarget_compile_fails:
  assumes "if target = ''swift''
             then compileToIR D schema document ((callerOptions s)\<lparr> addTypename := Some True \<rparr>) = Inl e
           else if target = ''flow'' \<or> target = ''typescript'' \<or> target = ''ts''
             then compileToIR D schema document (callerOptions s) = Inl e
           else compileToLegacyIR D schema document (callerOptions s) = Inl e"
  shows "\<exists>s'. generateForTarget D schema document outputPath only target nextToSources s = (Inl e, s')
            \<and> writtenFiles s' = writtenFiles s
            \<and> filter isWriteFileSync (calls s') = filter isWriteFileSync (calls s)"
proof (cases "target = ''swift''")
  case True
  with assms show ?thesis
    by (simp add: generateForTarget_def generateSwift_def bindS_def returnS_def
        callCompileToIR_def isWriteFileSync_def)
next
  case False
  show ?thesis
  proof (cases "target = ''flow'' \<or> target = ''typescript'' \<or> target = ''ts''")
    case True
    with False assms have c: "compileToIR D schema document (callerOptions s) = Inl e" by simp
    from True False have "generateForTarget D schema document outputPath only target nextToSources
        = generateFlowOrTypescript D schema document outputPath target nextToSources"
      by (simp add: generateForTarget_def)
    with c show ?thesis
      by (simp add: generateFlowOrTypescript_def bindS_def callCompileToIR_def isWriteFileSync_def)
  next
    case nt: False
    with False assms have c: "compileToLegacyIR D schema document (callerOptions s) = Inl e" by simp
    from nt False have "generateForTarget D schema document outputPath only target nextToSources
        = generateLegacy D schema document outputPath target"
      by (simp add: generateForTarget_def)
    with c show ?thesis
      by (simp add: generateLegacy_def bindS_def callCompileToLegacyIR_def isWriteFileSync_def)
  qed
qed

text \<open>
  C5.  When validation of the document raises, or the compilation to the (legacy) IR
  raises, \<open>generate\<close> propagates that error, \<open>writtenFiles\<close> is still zero, and no call
  of \<open>fs.writeFileSync\<close> has occurred: loading, validation and compilation precede
  every write.
\<close>

theorem failed_compilation_writes_no_files:
  assumes "loadAndMergeQueryDocuments D inputPaths tagName = Inr document"
    and "validateQueryDocument D schema document = Inl e
       \<or> (validateQueryDocument D schema document = Inr ()
          \<and> fst (ensureOutputDirectory D outputPath (s0\<lparr> writtenFiles := 0 \<rparr>)) = Inr ()
          \<and> (if target = ''swift''
               then compileToIR D schema document ((callerOptions s0)\<lparr> addTypename := Some True \<rparr>) = Inl e
             else if target = ''flow'' \<or> target = ''typescript'' \<or> target = ''ts''
               then compileToIR D schema document (callerOptions s0) = Inl e
             else compileToLegacyIR D schema document (callerOptions s0) = Inl e))"
  shows "fst (generate D inputPaths schema outputPath only target tagName nextToSources s0) = Inl e
       \<and> writtenFiles (snd (generate D inputPaths schema outputPath only target tagName nextToSources s0)) = 0
       \<and> filter isWriteFileSync
            (calls (snd (generate D inputPaths schema outputPath only target tagName nextToSources s0)))
          = filter isWriteFileSync (calls s0)"
  using assms(2)
proof
  assume "validateQueryDocument D schema document = Inl e"
  with assms(1) have
    "generate D inputPaths schema outputPath only target tagName nextToSources s0
       = (Inl e, s0\<lparr> writtenFiles := 0 \<rparr>)"
    by (simp add: generate_def bindS_def)
  then show ?thesis by simp
next
  assume a: "validateQueryDocument D schema document = Inr ()
          \<and> fst (ensureOutputDirectory D outputPath (s0\<lparr> writtenFiles := 0 \<rparr>)) = Inr ()
          \<and> (if target = ''swift''
               then compileToIR D schema document ((callerOptions s0)\<lparr> addTypename := Some True \<rparr>) = Inl e
             else if target = ''flow'' \<or> target = ''typescript'' \<or> target = ''ts''
               then compileToIR D schema document (callerOptions s0) = Inl e
             else compileToLegacyIR D schema document (callerOptions s0) = Inl e)"
  then obtain s1 where
    e: "ensureOutputDirectory D outputPath (s0\<lparr> writtenFiles := 0 \<rparr>) = (Inr (), s1)"
    by (cases "ensureOutputDirectory D outputPath (s0\<lparr> writtenFiles := 0 \<rparr>)") auto
  from ensureOutputDirectory_effect[OF e] have
    s1: "writtenFiles s1 = 0" "callerOptions s1 = callerOptions s0"
        "filter isWriteFileSync (calls s1) = filter isWriteFileSync (calls s0)"
    by simp_all
  from a s1(2) have
    "if target = ''swift''
       then compileToIR D schema document ((callerOptions s1)\<lparr> addTypename := Some True \<rparr>) = Inl e
     else if target = ''flow'' \<or> target = ''typescript'' \<or> target = ''ts''
       then compileToIR D schema document (callerOptions s1) = Inl e
     else compileToLegacyIR D schema document (callerOptions s1) = Inl e"
    by simp
  from generateForTarget_compile_fails[OF this] obtain s' where
    b: "generateForTarget D schema document outputPath only target nextToSources s1 = (Inl e, s')"
    and w: "writtenFiles s' = writtenFiles s1"
           "filter isWriteFileSync (calls s') = filter isWriteFileSync (calls s1)"
    by blast
  from a have v: "validateQueryDocument D schema document = Inr ()" by simp
  have "generate D inputPaths schema outputPath only target tagName nextToSources s0 = (Inl e, s')"
    unfolding generate_after_prelude[OF assms(1) v e] using b by (simp add: bindS_def)
  with w s1 show ?thesis by simp
qed

lemmas generate_defs =
  generate_def generateForTarget_def generateSwift_def generateFlowOrTypescript_def
  generateLegacy_def ensureOutputDirectory_def writeGeneratedFiles_def writeOperationIdsMap_def
  fs_mkdirSync_def fs_writeFileSync_def console_log_def callCompileToIR_def
  callCompileToLegacyIR_def addWritten_def bindS_def returnS_def liftS_def Let_def
  demoGenerateDeps_def demoState_def isWriteFileSync_def isCompileCall_def

lemma demo_validation_fails:
  "generate demoGenerateDeps [''a.graphql''] () ''__generated__'' None ''typescript'' ''gql'' True demoState
   = (Inl (Error ''Validation of GraphQL query document failed''), demoState)"
  by (simp add: generate_defs)

lemma demo_compile_fails:
  "generate demoGenerateDeps [''a.graphql'', ''b.graphql''] () ''__generated__'' None
     ''typescript'' ''gql'' True demoState
   = (Inl (Error ''Cannot spread fragment''),
      demoState\<lparr> fileSystem := [''__generated__''],
                  calls := [MkdirSync ''__generated__'', CompileToIR (callerOptions demoState)] \<rparr>)"
  by (simp add: generate_defs)

theorem failed_compilation_writes_no_files_witness:
  "loadAndMergeQueryDocuments demoGenerateDeps [''a.graphql''] ''gql'' = Inr 1
 \<and> validateQueryDocument demoGenerateDeps () 1 = Inl (Error ''Validation of GraphQL query document failed'')
 \<and> fst (generate demoGenerateDeps [''a.graphql''] () ''__generated__'' None ''typescript'' ''gql'' True
          demoState) = Inl (Error ''Validation of GraphQL query document failed'')
 \<and> calls (snd (generate demoGenerateDeps [''a.graphql''] () ''__generated__'' None ''typescript'' ''gql''
          True demoState)) = []
 \<and> loadAndMergeQueryDocuments demoGenerateDeps [''a.graphql'', ''b.graphql''] ''gql'' = Inr 2
 \<and> validateQueryDocument demoGenerateDeps () 2 = Inr ()
 \<and> compileToIR demoGenerateDeps () 2 (callerOptions demoState) = Inl (Error ''Cannot spread fragment'')
 \<and> fst (generate demoGenerateDeps [''a.graphql'', ''b.graphql''] () ''__generated__'' None
          ''typescript'' ''gql'' True demoState) = Inl (Error ''Cannot spread fragment'')
 \<and> writtenFiles (snd (generate demoGenerateDeps [''a.graphql'', ''b.graphql''] () ''__generated__'' None
          ''typescript'' ''gql'' True demoState)) = 0
 \<and> filter isWriteFileSync (calls (snd (generate demoGenerateDeps [''a.graphql'', ''b.graphql''] ()
          ''__generated__'' None ''typescript'' ''gql'' True demoState))) = []"
proof -
  have l1: "loadAndMergeQueryDocuments demoGenerateDeps [''a.graphql''] ''gql'' = Inr 1"
    by (simp add: demoGenerateDeps_def)
  have v1: "validateQueryDocument demoGenerateDeps () 1
              = Inl (Error ''Validation of GraphQL query document failed'')"
    by (simp add: demoGenerateDeps_def)
  have l2: "loadAndMergeQueryDocuments demoGenerateDeps [''a.graphql'', ''b.graphql''] ''gql'' = Inr 2"
    by (simp add: demoGenerateDeps_def)
  have v2: "validateQueryDocument demoGenerateDeps () 2 = Inr ()"
    by (simp add: demoGenerateDeps_def)
  have c2: "compileToIR demoGenerateDeps () 2 (callerOptions demoState) = Inl (Error ''Cannot spread fragment'')"
    by (simp add: demoGenerateDeps_def)
  have e2: "fst (ensureOutputDirectory demoGenerateDeps ''__generated__'' (demoState\<lparr> writtenFiles := 0 \<rparr>))
              = Inr ()"
    by (simp add: generate_defs)
  have c0: "calls demoState = []" by (simp add: demoState_def)
  have A: "fst (generate demoGenerateDeps [''a.graphql''] () ''__generated__'' None ''typescript'' ''gql'' True
          demoState) = Inl (Error ''Validation of GraphQL query document failed'')"
    using failed_compilation_writes_no_files[OF l1, of "()" "Error ''Validation of GraphQL query document failed''"
        "''__generated__''" demoState "''typescript''" None True] v1 by simp
  have B: "fst (generate demoGenerateDeps [''a.graphql'', ''b.graphql''] () ''__generated__'' None
          ''typescript'' ''gql'' True demoState) = Inl (Error ''Cannot spread fragment'')
      \<and> writtenFiles (snd (generate demoGenerateDeps [''a.graphql'', ''b.graphql''] () ''__generated__'' None
          ''typescript'' ''gql'' True demoState)) = 0
      \<and> filter isWriteFileSync (calls (snd (generate demoGenerateDeps [''a.graphql'', ''b.graphql''] ()
          ''__generated__'' None ''typescript'' ''gql'' True demoState))) = []"
    using failed_compilation_writes_no_files[OF l2, of "()" "Error ''Cannot spread fragment''"
        "''__generated__''" demoState "''typescript''" None True] v2 c2 e2 c0 by simp
  have C: "calls (snd (generate demoGenerateDeps [''a.graphql''] () ''__generated__'' None ''typescript'' ''gql''
          True demoState)) = []"
    unfolding demo_validation_fails by (simp add: demoState_def)
  from l1 v1 A C l2 v2 c2 B show ?thesis by blast
qed

theorem swift_compiles_with_addTypename_witness:
  "loadAndMergeQueryDocuments demoSwiftDeps [''a'', ''b'', ''c''] ''gql'' = Inr 3
 \<and> validateQueryDocument demoSwiftDeps () 3 = Inr ()
 \<and> ensureOutputDirectory demoSwiftDeps ''API.swift'' (demoState\<lparr> writtenFiles := 0 \<rparr>)
     = (Inr (), demoState)
 \<and> addTypename (callerOptions demoState) = Some False
 \<and> compileToIR demoSwiftDeps () 3 (defaultOptions\<lparr> addTypename := Some True \<rparr>)
     = Inr (exampleContext\<lparr> options := defaultOptions\<lparr> addTypename := Some True \<rparr> \<rparr>)
 \<and> filter isCompileCall (calls (snd (generate demoSwiftDeps [''a'', ''b'', ''c''] () ''API.swift'' None
      ''swift'' ''gql'' False demoState)))
   = [CompileToIR (defaultOptions\<lparr> addTypename := Some True \<rparr>)]
 \<and> addTypename (callerOptions (snd (generate demoSwiftDeps [''a'', ''b'', ''c''] () ''API.swift'' None
      ''swift'' ''gql'' False demoState))) = Some True
 \<and> WriteFileSync ''API.swift'' (Some ''// with __typename'')
     \<in> set (calls (snd (generate demoSwiftDeps [''a'', ''b'', ''c''] () ''API.swift'' None
          ''swift'' ''gql'' False demoState)))
 \<and> generate demoSwiftDeps [''a'', ''b'', ''c''] () ''API.swift'' None ''swift'' ''gql'' False
       (demoState\<lparr> callerOptions := (callerOptions demoState)\<lparr> addTypename := None \<rparr> \<rparr>)
     = generate demoSwiftDeps [''a'', ''b'', ''c''] () ''API.swift'' None ''swift'' ''gql'' False demoState
 \<and> filter isCompileCall (calls (snd (generate demoSwiftDeps [''a'', ''b'', ''c''] () ''API.ts'' None
      ''typescript'' ''gql'' False demoState)))
   = [CompileToIR (defaultOptions\<lparr> addTypename := Some False \<rparr>)]
 \<and> addTypename (callerOptions (snd (generate demoSwiftDeps [''a'', ''b'', ''c''] () ''API.ts'' None
      ''typescript'' ''gql'' False demoState))) = Some False
 \<and> WriteFileSync ''API.ts'' (Some ''// without __typename'')
     \<in> set (calls (snd (generate demoSwiftDeps [''a'', ''b'', ''c''] () ''API.ts'' None
          ''typescript'' ''gql'' False demoState)))
 \<and> filter isCompileCall (calls (snd (generate demoSwiftDeps [''a'', ''b'', ''c''] () ''API.json'' None
      ''json'' ''gql'' False demoState)))
   = [CompileToLegacyIR (defaultOptions\<lparr> addTypename := Some False \<rparr>)]
 \<and> WriteFileSync ''API.json'' (Some ''{}'')
     \<in> set (calls (snd (generate demoSwiftDeps [''a'', ''b'', ''c''] () ''API.json'' None
          ''json'' ''gql'' False demoState)))"
proof -
  have l: "loadAndMergeQueryDocuments demoSwiftDeps [''a'', ''b'', ''c''] ''gql'' = Inr 3"
    by (simp add: demoSwiftDeps_def demoGenerateDeps_def)
  have v: "validateQueryDocument demoSwiftDeps () 3 = Inr ()"
    by (simp add: demoSwiftDeps_def demoGenerateDeps_def)
  have e: "ensureOutputDirectory demoSwiftDeps ''API.swift'' (demoState\<lparr> writtenFiles := 0 \<rparr>)
             = (Inr (), demoState)"
    by (simp add: generate_defs demoSwiftDeps_def)
  have e_ts: "ensureOutputDirectory demoSwiftDeps ''API.ts'' (demoState\<lparr> writtenFiles := 0 \<rparr>)
             = (Inr (), demoState)"
    by (simp add: generate_defs demoSwiftDeps_def)
  have e_js: "ensureOutputDirectory demoSwiftDeps ''API.json'' (demoState\<lparr> writtenFiles := 0 \<rparr>)
             = (Inr (), demoState)"
    by (simp add: generate_defs demoSwiftDeps_def)
  have o: "callerOptions demoState = defaultOptions\<lparr> addTypename := Some False \<rparr>"
    "calls demoState = []" "fileSystem demoState = []"
    by (simp_all add: demoState_def)
  have a: "addTypename (callerOptions demoState) = Some False"
    by (simp add: o)
  have c: "compileToIR demoSwiftDeps () 3 (defaultOptions\<lparr> addTypename := Some True \<rparr>)
     = Inr (exampleContext\<lparr> options := defaultOptions\<lparr> addTypename := Some True \<rparr> \<rparr>)"
    by (simp add: demoSwiftDeps_def demoGenerateDeps_def)
  have d: "existsSync demoSwiftDeps [] p = False" "pathJoin demoSwiftDeps x y = x @ ''/'' @ y"
    "compileToIR demoSwiftDeps () 3 opts = Inr (exampleContext\<lparr> options := opts \<rparr>)"
    "compileToLegacyIR demoSwiftDeps () 3 opts = Inr ()"
    "serializeToJSON demoSwiftDeps u = Inr ''{}''"
    "generateSwiftSource demoSwiftDeps ctx i only
       = Inr \<lparr> swiftGeneratedFiles = [],
               swiftOutput = (if addTypename (options ctx) = Some True
                              then ''// with __typename'' else ''// without __typename'') \<rparr>"
    "generateTypescriptSource demoSwiftDeps ctx
       = Inr ([], if addTypename (options ctx) = Some True
                  then ''// with __typename'' else ''// without __typename'')"
    for p x y opts u ctx i only
    by (simp_all add: demoSwiftDeps_def demoGenerateDeps_def)
  note sw = swift_compiles_with_addTypename[where target = "''swift''" and nextToSources = False
      and only = None and x = None, OF l v e surjective_pairing]
  note ts = swift_compiles_with_addTypename[where target = "''typescript''" and nextToSources = False
      and only = None, OF l v e_ts surjective_pairing]
  note js = swift_compiles_with_addTypename[where target = "''json''" and nextToSources = False
      and only = None, OF l v e_js surjective_pairing]
  have S: "filter isCompileCall (calls (snd (generate demoSwiftDeps [''a'', ''b'', ''c''] () ''API.swift'' None
      ''swift'' ''gql'' False demoState)))
   = [CompileToIR (defaultOptions\<lparr> addTypename := Some True \<rparr>)]
 \<and> addTypename (callerOptions (snd (generate demoSwiftDeps [''a'', ''b'', ''c''] () ''API.swift'' None
      ''swift'' ''gql'' False demoState))) = Some True
 \<and> WriteFileSync ''API.swift'' (Some ''// with __typename'')
     \<in> set (calls (snd (generate demoSwiftDeps [''a'', ''b'', ''c''] () ''API.swift'' None
          ''swift'' ''gql'' False demoState)))
 \<and> generate demoSwiftDeps [''a'', ''b'', ''c''] () ''API.swift'' None ''swift'' ''gql'' False
       (demoState\<lparr> callerOptions := (callerOptions demoState)\<lparr> addTypename := None \<rparr> \<rparr>)
     = generate demoSwiftDeps [''a'', ''b'', ''c''] () ''API.swift'' None ''swift'' ''gql'' False demoState"
    using sw unfolding o d by simp
  have T: "filter isCompileCall (calls (snd (generate demoSwiftDeps [''a'', ''b'', ''c''] () ''API.ts'' None
      ''typescript'' ''gql'' False demoState)))
   = [CompileToIR (defaultOptions\<lparr> addTypename := Some False \<rparr>)]
 \<and> addTypename (callerOptions (snd (generate demoSwiftDeps [''a'', ''b'', ''c''] () ''API.ts'' None
      ''typescript'' ''gql'' False demoState))) = Some False
 \<and> WriteFileSync ''API.ts'' (Some ''// without __typename'')
     \<in> set (calls (snd (generate demoSwiftDeps [''a'', ''b'', ''c''] () ''API.ts'' None
          ''typescript'' ''gql'' False demoState)))"
    using ts unfolding o d by simp
  have J: "filter isCompileCall (calls (snd (generate demoSwiftDeps [''a'', ''b'', ''c''] () ''API.json'' None
      ''json'' ''gql'' False demoState)))
   = [CompileToLegacyIR (defaultOptions\<lparr> addTypename := Some False \<rparr>)]
 \<and> WriteFileSync ''API.json'' (Some ''{}'')
     \<in> set (calls (snd (generate demoSwiftDeps [''a'', ''b'', ''c''] () ''API.json'' None
          ''json'' ''gql'' False demoState)))"
    using js unfolding o d by simp
  from l v e a c S T J show ?thesis by simp
qed

end
